theory Spec2Isabelle
  imports Complex_Main "HOL-Library.Word" "HOL-Library.List_Lexorder" "HOL-Library.Char_ord"
begin

unbundle bit_operations_syntax

section \<open>Errors\<close>

text \<open>
  The error codes raised by the two libraries (\<open>PODOFO_RAISE_ERROR\<close>,
  \<open>PDFMM_RAISE_ERROR_INFO\<close>).  \<open>UndefinedBehaviour\<close> is not an error code of the
  library: it marks the executions that C++ leaves undefined (a conversion of an
  out-of-range double to an integer, a write through a pointer of the wrong type, a read
  in front of a buffer), so that the model stays total without inventing a result.
\<close>

datatype PdfErrorCode =
    InvalidDataType | InvalidHandle | ChangeOnImmutable | ValueOutOfRange
  | InternalLogic | UnexpectedEOF | UnsupportedFontFormat | InvalidEnumValue
  | InvalidFontFile | UndefinedBehaviour

section \<open>PdfVariant.cpp: the variant\<close>

datatype EPdfDataType =
    ePdfDataType_Bool | ePdfDataType_Number | ePdfDataType_Real | ePdfDataType_String
  | ePdfDataType_HexString | ePdfDataType_Name | ePdfDataType_Array
  | ePdfDataType_Dictionary | ePdfDataType_Null | ePdfDataType_Reference
  | ePdfDataType_RawData | ePdfDataType_Unknown

datatype PdfReference = PdfReference (ObjectNumber: "32 word") (GenerationNumber: "16 word")

text \<open>
  A \<open>double\<close>, as \<open>PdfVariant( double d )\<close> and \<open>SetReal\<close> store it, unchecked: a
  finite double other than negative zero, given by the number it stands for (a
  rational, on which \<open>floor\<close> is exact); negative zero; an infinity or a NaN, with its
  sign bit (\<open>True\<close> when set).
\<close>

datatype double = Finite real | NegativeZero | Infinity bool | NaN bool

text \<open>\<open>isfinite\<close> of the C library.\<close>

fun isfinite :: "double \<Rightarrow> bool" where
  "isfinite (Finite x) = True"
| "isfinite NegativeZero = True"
| "isfinite (Infinity negative) = False"
| "isfinite (NaN negative) = False"

text \<open>
  A variant is its payload (the union \<open>m_Data\<close> together with the tag
  \<open>m_eDataType\<close>, as one tagged union) and its three flags.  A Real holds a
  \<open>double\<close>.  A dictionary is a \<open>std::map\<close>: its entries are kept sorted by key, one
  entry a key.

  Modelled from the spec: \<open>PdfArray\<close> and \<open>PdfObject\<close> are not among the sources.  An
  array is an ordered sequence of variants with a dirty flag of its own, and the values
  held by arrays and dictionaries (\<open>PdfObject\<close>, "a Variant + Reference + optional
  Stream") are variants: their identity and stream play no part in what follows.
\<close>

datatype PdfVariant =
  PdfVariant (m_Data: UVariant) (m_bDirty: bool) (m_bImmutable: bool) (m_bDelayedLoadDone: bool)
and UVariant =
    VBool bool | VNumber "64 word" | VReal double | VString string | VHexString string
  | VName string | VArray PdfArray | VDictionary PdfDictionary | VNull
  | VReference PdfReference | VRawData string | VUnknown
and PdfDictionary =
  PdfDictionary (m_mapKeys: "(string \<times> PdfVariant) list") (dict_bDirty: bool) (dict_bImmutable: bool)
and PdfArray =
  PdfArray (m_objects: "PdfVariant list") (array_bDirty: bool) (array_bImmutable: bool)

fun dataTypeOf :: "UVariant \<Rightarrow> EPdfDataType" where
  "dataTypeOf (VBool _) = ePdfDataType_Bool"
| "dataTypeOf (VNumber _) = ePdfDataType_Number"
| "dataTypeOf (VReal _) = ePdfDataType_Real"
| "dataTypeOf (VString _) = ePdfDataType_String"
| "dataTypeOf (VHexString _) = ePdfDataType_HexString"
| "dataTypeOf (VName _) = ePdfDataType_Name"
| "dataTypeOf (VArray _) = ePdfDataType_Array"
| "dataTypeOf (VDictionary _) = ePdfDataType_Dictionary"
| "dataTypeOf VNull = ePdfDataType_Null"
| "dataTypeOf (VReference _) = ePdfDataType_Reference"
| "dataTypeOf (VRawData _) = ePdfDataType_RawData"
| "dataTypeOf VUnknown = ePdfDataType_Unknown"

definition m_eDataType :: "PdfVariant \<Rightarrow> EPdfDataType" where
  "m_eDataType v = dataTypeOf (m_Data v)"

text \<open>
  \<open>DelayedLoad\<close>: nothing to do once the load is done; otherwise
  \<open>PdfVariant::DelayedLoadImpl\<close> raises \<open>InternalLogic\<close>.
\<close>

definition DelayedLoad :: "PdfVariant \<Rightarrow> PdfErrorCode + unit" where
  "DelayedLoad v = (if m_bDelayedLoadDone v then Inr () else Inl InternalLogic)"

definition AssertMutable :: "PdfVariant \<Rightarrow> PdfErrorCode + unit" where
  "AssertMutable v = (if m_bImmutable v then Inl ChangeOnImmutable else Inr ())"

definition IsReal :: "PdfVariant \<Rightarrow> bool" where
  "IsReal v = (m_eDataType v = ePdfDataType_Real)"

definition IsNumber :: "PdfVariant \<Rightarrow> bool" where
  "IsNumber v = (m_eDataType v = ePdfDataType_Number)"

definition IsReference :: "PdfVariant \<Rightarrow> bool" where
  "IsReference v = (m_eDataType v = ePdfDataType_Reference)"

text \<open>
  \<open>static_cast<long>(x)\<close> for a double \<open>x\<close> with an integral value, \<open>long\<close> being 64
  bits wide: the value itself when it fits, undefined otherwise.
\<close>

definition static_cast_long :: "int \<Rightarrow> PdfErrorCode + 64 word" where
  "static_cast_long i =
     (if - (2 ^ 63) \<le> i \<and> i < 2 ^ 63 then Inr (word_of_int i) else Inl UndefinedBehaviour)"

text \<open>
  \<open>static_cast<long>(floor(d))\<close>.  The floor of negative zero is negative zero, which
  converts to 0; the floor of an infinity or of a NaN is the value itself, whose
  conversion to \<open>long\<close> is undefined.
\<close>

fun static_cast_long_floor :: "double \<Rightarrow> PdfErrorCode + 64 word" where
  "static_cast_long_floor (Finite x) = static_cast_long \<lfloor>x\<rfloor>"
| "static_cast_long_floor NegativeZero = static_cast_long 0"
| "static_cast_long_floor (Infinity negative) = Inl UndefinedBehaviour"
| "static_cast_long_floor (NaN negative) = Inl UndefinedBehaviour"

definition GetNumber :: "PdfVariant \<Rightarrow> PdfErrorCode + 64 word" where
  "GetNumber v =
     (case DelayedLoad v of Inl e \<Rightarrow> Inl e
      | Inr _ \<Rightarrow>
          if \<not> IsReal v \<and> \<not> IsNumber v then Inl InvalidDataType
          else (case m_Data v of
                  VReal dNumber \<Rightarrow> static_cast_long_floor dNumber
                | VNumber nNumber \<Rightarrow> Inr nNumber
                | _ \<Rightarrow> Inl InvalidDataType))"

text \<open>
  \<open>SetReference\<close>.  Past the guard the variant is not a reference, and the assignment
  \<open>*((PdfReference* )m_Data.pData) = ref\<close> writes through a pointer that does not point
  to a \<open>PdfReference\<close>.
\<close>

definition SetReference :: "PdfVariant \<Rightarrow> PdfReference \<Rightarrow> PdfErrorCode + PdfVariant" where
  "SetReference v ref =
     (case DelayedLoad v of Inl e \<Rightarrow> Inl e
      | Inr _ \<Rightarrow>
          if IsReference v then Inl InvalidDataType
          else (case AssertMutable v of Inl e \<Rightarrow> Inl e
                | Inr _ \<Rightarrow> Inl UndefinedBehaviour))"

subsection \<open>Dirty flags\<close>

fun IsDirty :: "PdfVariant \<Rightarrow> bool"
and PdfDictionary_IsDirty :: "PdfDictionary \<Rightarrow> bool"
and PdfArray_IsDirty :: "PdfArray \<Rightarrow> bool" where
  "IsDirty (PdfVariant d dirty imm dl) =
     (if dirty then dirty
      else (case d of
              VArray a \<Rightarrow> PdfArray_IsDirty a
            | VDictionary dict \<Rightarrow> PdfDictionary_IsDirty dict
            | _ \<Rightarrow> dirty))"
| "PdfDictionary_IsDirty (PdfDictionary keys dirty imm) =
     (if dirty then dirty else (\<exists>it \<in> set keys. IsDirty (snd it)))"
| "PdfArray_IsDirty (PdfArray objs dirty imm) =
     (if dirty then dirty else (\<exists>obj \<in> set objs. IsDirty obj))"

fun SetDirty :: "bool \<Rightarrow> PdfVariant \<Rightarrow> PdfVariant"
and PdfDictionary_SetDirty :: "bool \<Rightarrow> PdfDictionary \<Rightarrow> PdfDictionary"
and PdfArray_SetDirty :: "bool \<Rightarrow> PdfArray \<Rightarrow> PdfArray" where
  "SetDirty bDirty (PdfVariant d dirty imm dl) =
     PdfVariant
       (if \<not> bDirty
        then (case d of
                VArray a \<Rightarrow> VArray (PdfArray_SetDirty bDirty a)
              | VDictionary dict \<Rightarrow> VDictionary (PdfDictionary_SetDirty bDirty dict)
              | _ \<Rightarrow> d)
        else d)
       bDirty imm dl"
| "PdfDictionary_SetDirty bDirty (PdfDictionary keys dirty imm) =
     PdfDictionary
       (if \<not> bDirty then map (\<lambda>it. (fst it, SetDirty bDirty (snd it))) keys else keys)
       bDirty imm"
| "PdfArray_SetDirty bDirty (PdfArray objs dirty imm) =
     PdfArray (if \<not> bDirty then map (SetDirty bDirty) objs else objs) bDirty imm"

subsection \<open>Copy construction and assignment\<close>

text \<open>Copying a container copies its elements in order and stops at the first that raises.\<close>

fun sequence_sum :: "('e + 'a) list \<Rightarrow> 'e + 'a list" where
  "sequence_sum [] = Inr []"
| "sequence_sum (x # xs) =
     (case x of
        Inl e \<Rightarrow> Inl e
      | Inr v \<Rightarrow> (case sequence_sum xs of Inl e \<Rightarrow> Inl e | Inr vs \<Rightarrow> Inr (v # vs)))"

text \<open>
  \<open>PdfVariant_assign\<close> is \<open>operator=\<close>: \<open>Clear()\<close> resets the target (so nothing of it
  survives), the source is loaded, the payload is copied with the copy constructor of its
  class, and the target is marked dirty.  \<open>PdfVariant_copy\<close> is the copy constructor:
  \<open>Init()\<close>, \<open>operator=\<close>, \<open>SetDirty(false)\<close>.  \<open>PdfDictionary_assign\<close> and
  \<open>PdfDictionary_copy\<close> are the same pair for dictionaries; the base-class assignment
  \<open>PdfOwnedDataType::operator=\<close> is taken to copy the immutable flag.  The array pair is
  modelled on the dictionary's.
\<close>

fun PdfVariant_assign :: "PdfVariant \<Rightarrow> PdfErrorCode + PdfVariant"
and PdfVariant_copy :: "PdfVariant \<Rightarrow> PdfErrorCode + PdfVariant"
and PdfDictionary_assign :: "PdfDictionary \<Rightarrow> PdfErrorCode + PdfDictionary"
and PdfDictionary_copy :: "PdfDictionary \<Rightarrow> PdfErrorCode + PdfDictionary"
and PdfArray_assign :: "PdfArray \<Rightarrow> PdfErrorCode + PdfArray"
and PdfArray_copy :: "PdfArray \<Rightarrow> PdfErrorCode + PdfArray" where
  "PdfVariant_assign (PdfVariant d dirty imm dl) =
     (if \<not> dl then Inl InternalLogic
      else (case (case d of
                    VArray a \<Rightarrow>
                      (case PdfArray_copy a of Inl e \<Rightarrow> Inl e | Inr a' \<Rightarrow> Inr (VArray a'))
                  | VDictionary dict \<Rightarrow>
                      (case PdfDictionary_copy dict of
                         Inl e \<Rightarrow> Inl e
                       | Inr dict' \<Rightarrow> Inr (VDictionary dict'))
                  | _ \<Rightarrow> Inr d) of
              Inl e \<Rightarrow> Inl e
            | Inr d' \<Rightarrow> Inr (SetDirty True (PdfVariant d' False False True))))"
| "PdfVariant_copy (PdfVariant d dirty imm dl) =
     (case PdfVariant_assign (PdfVariant d dirty imm dl) of
        Inl e \<Rightarrow> Inl e
      | Inr this \<Rightarrow> Inr (SetDirty False this))"
| "PdfDictionary_assign (PdfDictionary keys dirty imm) =
     (case sequence_sum
             (map (\<lambda>it. case PdfVariant_copy (snd it) of
                          Inl e \<Rightarrow> Inl e
                        | Inr obj \<Rightarrow> Inr (fst it, obj)) keys) of
        Inl e \<Rightarrow> Inl e
      | Inr keys' \<Rightarrow> Inr (PdfDictionary keys' True imm))"
| "PdfDictionary_copy (PdfDictionary keys dirty imm) =
     (case PdfDictionary_assign (PdfDictionary keys dirty imm) of
        Inl e \<Rightarrow> Inl e
      | Inr this \<Rightarrow> Inr (PdfDictionary (m_mapKeys this) False (dict_bImmutable this)))"
| "PdfArray_assign (PdfArray objs dirty imm) =
     (case sequence_sum (map PdfVariant_copy objs) of
        Inl e \<Rightarrow> Inl e
      | Inr objs' \<Rightarrow> Inr (PdfArray objs' True imm))"
| "PdfArray_copy (PdfArray objs dirty imm) =
     (case PdfArray_assign (PdfArray objs dirty imm) of
        Inl e \<Rightarrow> Inl e
      | Inr this \<Rightarrow> Inr (PdfArray (m_objects this) False (array_bImmutable this)))"

section \<open>PdfVariant.cpp: the dictionary\<close>

text \<open>
  \<open>m_mapKeys\<close> is a \<open>std::map\<close> from names to objects: a list of entries in
  ascending order of the keys.  A name is its bytes, ordered byte by byte.  \<open>std_map_find\<close> is \<open>find\<close> (\<open>None\<close> for \<open>end()\<close>),
  \<open>std_map_insert\<close> is \<open>insert\<close> on a map that does not hold the key yet,
  \<open>std_map_assign\<close> overwrites the value of a key the map holds, and \<open>std_map_erase\<close>
  erases a key.
\<close>

fun std_map_find :: "('k \<times> 'v) list \<Rightarrow> 'k \<Rightarrow> 'v option" where
  "std_map_find [] key = None"
| "std_map_find (it # rest) key = (if fst it = key then Some (snd it) else std_map_find rest key)"

fun std_map_insert :: "'k::linorder \<Rightarrow> 'v \<Rightarrow> ('k \<times> 'v) list \<Rightarrow> ('k \<times> 'v) list" where
  "std_map_insert key v [] = [(key, v)]"
| "std_map_insert key v (it # rest) =
     (if key < fst it then (key, v) # it # rest else it # std_map_insert key v rest)"

fun std_map_assign :: "'k \<Rightarrow> 'v \<Rightarrow> ('k \<times> 'v) list \<Rightarrow> ('k \<times> 'v) list" where
  "std_map_assign key v [] = []"
| "std_map_assign key v (it # rest) =
     (if fst it = key then (key, v) # rest else it # std_map_assign key v rest)"

definition std_map_erase :: "'k \<Rightarrow> ('k \<times> 'v) list \<Rightarrow> ('k \<times> 'v) list" where
  "std_map_erase key keys = filter (\<lambda>it. fst it \<noteq> key) keys"

text \<open>
  \<open>AddKey\<close>.  \<open>std::make_pair(identifier, rObject)\<close> copy-constructs the object; when
  the key is new the copy is stored, otherwise the stored object is assigned from
  \<open>rObject\<close>.  \<open>pOwner\<close> is \<open>None\<close> when \<open>GetObjectOwner()\<close> is null, and otherwise
  holds what \<open>SetOwner( *pOwner)\<close> does to the stored object (\<open>PdfObject::SetOwner\<close> is
  not among the sources).  The result is the dictionary; the reference to the stored
  object that the C++ function returns is one \<open>std_map_find\<close> away.
\<close>

definition AddKey ::
  "(PdfVariant \<Rightarrow> PdfVariant) option \<Rightarrow> PdfDictionary \<Rightarrow> string \<Rightarrow> PdfVariant
     \<Rightarrow> PdfErrorCode + PdfDictionary" where
  "AddKey pOwner d identifier rObject =
     (if dict_bImmutable d then Inl ChangeOnImmutable
      else (case PdfVariant_copy rObject of
              Inl e \<Rightarrow> Inl e
            | Inr pair_second \<Rightarrow>
               (case (case std_map_find (m_mapKeys d) identifier of
                        None \<Rightarrow> Inr (pair_second, std_map_insert identifier pair_second (m_mapKeys d))
                      | Some _ \<Rightarrow>
                          (case PdfVariant_assign rObject of
                             Inl e \<Rightarrow> Inl e
                           | Inr obj \<Rightarrow> Inr (obj, std_map_assign identifier obj (m_mapKeys d)))) of
                  Inl e \<Rightarrow> Inl e
                | Inr (stored, keys) \<Rightarrow>
                    Inr (PdfDictionary
                           (case pOwner of
                              None \<Rightarrow> keys
                            | Some SetOwner \<Rightarrow> std_map_assign identifier (SetOwner stored) keys)
                           True (dict_bImmutable d)))))"

definition getKey :: "PdfDictionary \<Rightarrow> string \<Rightarrow> PdfVariant option" where
  "getKey d key = (if length key = 0 then None else std_map_find (m_mapKeys d) key)"

definition HasKey :: "PdfDictionary \<Rightarrow> string \<Rightarrow> bool" where
  "HasKey d key = (std_map_find (m_mapKeys d) key \<noteq> None)"

definition RemoveKey :: "PdfDictionary \<Rightarrow> string \<Rightarrow> PdfErrorCode + bool \<times> PdfDictionary" where
  "RemoveKey d identifier =
     (if dict_bImmutable d then Inl ChangeOnImmutable
      else (case std_map_find (m_mapKeys d) identifier of
              None \<Rightarrow> Inr (False, d)
            | Some _ \<Rightarrow>
                Inr (True, PdfDictionary (std_map_erase identifier (m_mapKeys d)) True
                             (dict_bImmutable d))))"

text \<open>
  \<open>operator==\<close>.  The four iterators are \<open>const\<close>: an iterator is the list of the
  entries from its position on, the end iterator is the empty list, and the body of the
  loop does not move them, so the next round starts from the same two positions.  A loop
  that does not come back has no result: \<open>None\<close>.  \<open>ne\<close> is \<open>operator!=\<close> of the
  values (\<open>PdfObject\<close>, not among the sources), which may raise; \<open>same\<close> tells whether
  the two operands are one object (\<open>this == &rhs\<close>).
\<close>

partial_function (option) PdfDictionary_eq_loop ::
  "(PdfVariant \<Rightarrow> PdfVariant \<Rightarrow> PdfErrorCode + bool)
     \<Rightarrow> (string \<times> PdfVariant) list \<Rightarrow> (string \<times> PdfVariant) list
     \<Rightarrow> (PdfErrorCode + bool) option" where
  "PdfDictionary_eq_loop ne thisIt rhsIt =
     (if thisIt \<noteq> [] \<and> rhsIt \<noteq> []
      then (if fst (hd thisIt) \<noteq> fst (hd rhsIt) then Some (Inr False)
            else (case ne (snd (hd thisIt)) (snd (hd rhsIt)) of
                    Inl e \<Rightarrow> Some (Inl e)
                  | Inr differ \<Rightarrow>
                      if differ then Some (Inr False)
                      else PdfDictionary_eq_loop ne thisIt rhsIt))
      else (if thisIt \<noteq> [] \<or> rhsIt \<noteq> [] then Some (Inl InternalLogic)
            else Some (Inr True)))"

definition PdfDictionary_eq ::
  "(PdfVariant \<Rightarrow> PdfVariant \<Rightarrow> PdfErrorCode + bool) \<Rightarrow> bool
     \<Rightarrow> PdfDictionary \<Rightarrow> PdfDictionary \<Rightarrow> (PdfErrorCode + bool) option" where
  "PdfDictionary_eq ne same this rhs =
     (if same then Some (Inr True)
      else if length (m_mapKeys this) \<noteq> length (m_mapKeys rhs) then Some (Inr False)
      else PdfDictionary_eq_loop ne (m_mapKeys this) (m_mapKeys rhs))"

text \<open>The values compared by their content, flags apart, for the examples.\<close>

definition ne_by_value :: "PdfVariant \<Rightarrow> PdfVariant \<Rightarrow> PdfErrorCode + bool" where
  "ne_by_value a b = Inr (m_Data a \<noteq> m_Data b)"

section \<open>PdfVariant.cpp: writing a variant\<close>

text \<open>
  Modelled from the spec: \<open>EPdfWriteMode\<close> is declared outside the sources; it is "an
  independent bitfield" of the two modes, and \<open>(eWriteMode & ePdfWriteMode_Compact) ==
  ePdfWriteMode_Compact\<close> reads its compact bit.
\<close>

record EPdfWriteMode =
  ePdfWriteMode_Compact :: bool
  ePdfWriteMode_Clean :: bool

text \<open>Decimal digits of a natural number, as \<open>%d\<close> and the stream inserters print them.\<close>

fun decimal :: "nat \<Rightarrow> string" where
  "decimal n =
     (if n < 10 then [''0123456789'' ! n]
      else decimal (n div 10) @ [''0123456789'' ! (n mod 10)])"

definition print_int64 :: "64 word \<Rightarrow> string" where
  "print_int64 n =
     (if sint n < 0 then CHR ''-'' # decimal (nat (- sint n)) else decimal (nat (sint n)))"

text \<open>
  \<open>oss << std::fixed << d\<close> in the classic locale, with the stream's default precision
  of six digits (the stream and its \<open>num_put\<close> facet belong to the C++ library, which
  formats as \<open>printf\<close> does with \<open>%.6f\<close>).  A finite value is rounded to a multiple of
  \<open>10^-6\<close>, to nearest and on a tie to the even one, and printed as sign, integer part,
  point and six decimals: \<open>fixed_point\<close>.  Negative zero prints its sign.  An infinity
  and a NaN print as a word with no point, after a minus when the sign bit is set.
\<close>

definition round_half_even :: "real \<Rightarrow> int" where
  "round_half_even x =
     (if x - of_int \<lfloor>x\<rfloor> < 1 / 2 then \<lfloor>x\<rfloor>
      else if 1 / 2 < x - of_int \<lfloor>x\<rfloor> then \<lfloor>x\<rfloor> + 1
      else if even \<lfloor>x\<rfloor> then \<lfloor>x\<rfloor> else \<lfloor>x\<rfloor> + 1)"

definition fixed_point :: "real \<Rightarrow> string" where
  "fixed_point x =
     (let n = nat (round_half_even (\<bar>x\<bar> * 1000000));
          frac = decimal (n mod 1000000)
      in (if x < 0 then [CHR ''-''] else [])
           @ decimal (n div 1000000) @ [CHR ''.''] @ take (6 - length frac) ''000000'' @ frac)"

fun ostream_fixed :: "double \<Rightarrow> string" where
  "ostream_fixed (Finite x) = fixed_point x"
| "ostream_fixed NegativeZero = ''-0.000000''"
| "ostream_fixed (Infinity negative) = (if negative then ''-inf'' else ''inf'')"
| "ostream_fixed (NaN negative) = (if negative then ''-nan'' else ''nan'')"

text \<open>
  \<open>while( str[len - 1] == '0' ) --len;\<close> from \<open>len\<close> down.  At \<open>len = 0\<close> the loop reads
  \<open>str[-1]\<close>, in front of the buffer.
\<close>

fun strip_trailing_zeros :: "string \<Rightarrow> nat \<Rightarrow> nat option" where
  "strip_trailing_zeros str 0 = None"
| "strip_trailing_zeros str (Suc n) =
     (if str ! n = CHR ''0'' then strip_trailing_zeros str n else Some (Suc n))"

text \<open>
  \<open>PdfVariant::Write\<close>: the bytes handed to the device.  \<open>pData_Write\<close> is the
  \<open>Write\<close> method of the payload classes (strings, names, arrays, references, raw data
  and dictionaries).  The handle check for a null \<open>pData\<close> has no counterpart: a payload
  of these kinds always exists here.
\<close>

definition PdfVariant_Write ::
  "(UVariant \<Rightarrow> EPdfWriteMode \<Rightarrow> PdfErrorCode + string) \<Rightarrow> PdfVariant \<Rightarrow> EPdfWriteMode
     \<Rightarrow> PdfErrorCode + string" where
  "PdfVariant_Write pData_Write v eWriteMode =
     (case DelayedLoad v of Inl e \<Rightarrow> Inl e
      | Inr _ \<Rightarrow>
       (case m_Data v of
          VBool bBoolValue \<Rightarrow>
            Inr ((if ePdfWriteMode_Compact eWriteMode then [CHR '' ''] else [])
                   @ (if bBoolValue then ''true'' else ''false''))
        | VNumber nNumber \<Rightarrow>
            Inr ((if ePdfWriteMode_Compact eWriteMode then [CHR '' ''] else [])
                   @ print_int64 nNumber)
        | VReal dNumber \<Rightarrow>
            (let space = (if ePdfWriteMode_Compact eWriteMode then [CHR '' ''] else []);
                 copy = ostream_fixed dNumber;
                 len = length copy
             in if ePdfWriteMode_Compact eWriteMode \<and> CHR ''.'' \<in> set copy
                then (case strip_trailing_zeros copy len of
                        None \<Rightarrow> Inl UndefinedBehaviour
                      | Some len1 \<Rightarrow>
                          (let len2 = (if copy ! (len1 - 1) = CHR ''.'' then len1 - 1 else len1)
                           in if len2 = 0 then Inr (space @ ''0'')
                              else Inr (space @ take len2 copy)))
                else Inr (space @ take len copy))
        | VNull \<Rightarrow>
            Inr ((if ePdfWriteMode_Compact eWriteMode then [CHR '' ''] else []) @ ''null'')
        | VUnknown \<Rightarrow> Inl InvalidDataType
        | VString s \<Rightarrow> pData_Write (VString s) eWriteMode
        | VHexString s \<Rightarrow> pData_Write (VHexString s) eWriteMode
        | VName s \<Rightarrow> pData_Write (VName s) eWriteMode
        | VArray a \<Rightarrow> pData_Write (VArray a) eWriteMode
        | VReference r \<Rightarrow> pData_Write (VReference r) eWriteMode
        | VRawData s \<Rightarrow> pData_Write (VRawData s) eWriteMode
        | VDictionary dict \<Rightarrow> pData_Write (VDictionary dict) eWriteMode))"

section \<open>PdfFontTrueTypeSubset.cpp: reading the font\<close>

text \<open>
  Modelled from the spec: the input device and the readers \<open>utls::ReadUInt16BE\<close>,
  \<open>utls::ReadUInt32BE\<close> and \<open>utls::ReadInt16BE\<close> are not among the sources.  The
  device holds the bytes of the font program; \<open>Seek\<close> to a position followed by a read
  of \<open>n\<close> bytes yields the bytes at that position, and "truncated input" raises
  \<open>UnexpectedEOF\<close>.  Byte order is big-endian throughout.  Positions handed to \<open>Seek\<close>
  are \<open>size_t\<close> values (64 bits wide, so the sums of a few 32-bit values that occur
  here do not wrap): natural numbers.  Values of type \<open>unsigned\<close> and \<open>uint32_t\<close> are
  32-bit words, and their arithmetic wraps.
\<close>

definition device_Read :: "8 word list \<Rightarrow> nat \<Rightarrow> nat \<Rightarrow> PdfErrorCode + 8 word list" where
  "device_Read dev pos n =
     (if pos + n \<le> length dev then Inr (take n (drop pos dev)) else Inl UnexpectedEOF)"

definition big_endian :: "8 word list \<Rightarrow> nat" where
  "big_endian bytes = foldl (\<lambda>acc b. acc * 256 + unat b) 0 bytes"

definition ReadUInt16BE :: "8 word list \<Rightarrow> nat \<Rightarrow> PdfErrorCode + 16 word" where
  "ReadUInt16BE dev pos =
     (case device_Read dev pos 2 of Inl e \<Rightarrow> Inl e | Inr bytes \<Rightarrow> Inr (of_nat (big_endian bytes)))"

definition ReadUInt32BE :: "8 word list \<Rightarrow> nat \<Rightarrow> PdfErrorCode + 32 word" where
  "ReadUInt32BE dev pos =
     (case device_Read dev pos 4 of Inl e \<Rightarrow> Inl e | Inr bytes \<Rightarrow> Inr (of_nat (big_endian bytes)))"

text \<open>The bytes written by \<open>utls::WriteUInt16BE\<close> and \<open>utls::WriteUInt32BE\<close>.\<close>

definition UInt16BE :: "16 word \<Rightarrow> 8 word list" where
  "UInt16BE x = [ucast (drop_bit 8 x), ucast x]"

definition UInt32BE :: "32 word \<Rightarrow> 8 word list" where
  "UInt32BE x = [ucast (drop_bit 24 x), ucast (drop_bit 16 x), ucast (drop_bit 8 x), ucast x]"

text \<open>
  The table tags are FreeType's \<open>TTAG_\<close> constants (declared outside the sources): the
  four characters of the name of the table, big-endian.
\<close>

definition TTAG_head :: "32 word" where "TTAG_head = 0x68656164"
definition TTAG_hhea :: "32 word" where "TTAG_hhea = 0x68686561"
definition TTAG_loca :: "32 word" where "TTAG_loca = 0x6C6F6361"
definition TTAG_maxp :: "32 word" where "TTAG_maxp = 0x6D617870"
definition TTAG_glyf :: "32 word" where "TTAG_glyf = 0x676C7966"
definition TTAG_hmtx :: "32 word" where "TTAG_hmtx = 0x686D7478"
definition TTAG_cvt :: "32 word" where "TTAG_cvt = 0x63767420"
definition TTAG_fpgm :: "32 word" where "TTAG_fpgm = 0x6670676D"
definition TTAG_prep :: "32 word" where "TTAG_prep = 0x70726570"
definition TTAG_post :: "32 word" where "TTAG_post = 0x706F7374"
definition TTAG_cmap :: "32 word" where "TTAG_cmap = 0x636D6170"

text \<open>The bit mask \<open>ReqTable\<close> of the required tables.\<close>

definition ReqTable_none :: "32 word" where "ReqTable_none = 0"
definition ReqTable_head :: "32 word" where "ReqTable_head = 1"
definition ReqTable_hhea :: "32 word" where "ReqTable_hhea = 2"
definition ReqTable_loca :: "32 word" where "ReqTable_loca = 4"
definition ReqTable_maxp :: "32 word" where "ReqTable_maxp = 8"
definition ReqTable_glyf :: "32 word" where "ReqTable_glyf = 16"
definition ReqTable_hmtx :: "32 word" where "ReqTable_hmtx = 32"

definition ReqTable_all :: "32 word" where
  "ReqTable_all =
     ReqTable_head OR ReqTable_hhea OR ReqTable_loca OR ReqTable_maxp OR ReqTable_glyf
       OR ReqTable_hmtx"

record TrueTypeTable =
  Tag :: "32 word"
  Checksum :: "32 word"
  Length :: "32 word"
  Offset :: "32 word"

record GlyphCompoundComponentData =
  component_Offset :: "32 word"
  component_GlyphIndex :: "32 word"

record GlyphData =
  IsCompound :: bool
  GlyphOffset :: "32 word"
  GlyphLength :: "32 word"
  GlyphAdvOffset :: "32 word"
  CompoundComponents :: "GlyphCompoundComponentData list"

record GlyphCompoundData =
  Flags :: "32 word"
  GlyphIndex :: "32 word"

record GlyphContext =
  GlyfTableOffset :: "32 word"
  LocaTableOffset :: "32 word"

text \<open>
  The subsetter.  The local \<open>glyphIndexMap\<close> of \<open>LoadGlyphs\<close> is declared there as
  \<open>map<unsigned, unsigned>\<close>, a \<open>std::map\<close> keyed by glyph id.  The member
  \<open>m_glyphDatas\<close> is declared in the header, outside the sources; the code uses it
  through \<open>find\<close>, \<open>operator[]\<close>, \<open>size\<close> and a range-for over its pairs, and it is
  taken to be a \<open>std::map\<close> keyed by glyph id as well.  A range-for over a \<open>std::map\<close>
  visits the keys in ascending order, whatever the order of insertion: the maps are
  lists of pairs sorted by key.  \<open>m_orderedGIDs\<close> is a vector of glyph ids, and
  \<open>m_tables\<close> a vector of tables.
\<close>

record PdfFontTrueTypeSubset =
  m_device :: "8 word list"
  m_isLongLoca :: bool
  m_glyphCount :: "16 word"
  m_HMetricsCount :: "16 word"
  m_tables :: "TrueTypeTable list"
  m_glyphDatas :: "(32 word \<times> GlyphData) list"
  m_orderedGIDs :: "32 word list"

definition new_PdfFontTrueTypeSubset :: "8 word list \<Rightarrow> PdfFontTrueTypeSubset" where
  "new_PdfFontTrueTypeSubset device =
     \<lparr>m_device = device, m_isLongLoca = False, m_glyphCount = 0, m_HMetricsCount = 0,
      m_tables = [], m_glyphDatas = [], m_orderedGIDs = []\<rparr>"

subsection \<open>InitTables\<close>

text \<open>
  The \<open>switch\<close> of \<open>InitTables\<close> on the tag of a directory entry: the new mask, the
  length kept for the table, and whether the table is skipped.
\<close>

definition InitTables_switch :: "TrueTypeTable \<Rightarrow> 32 word \<Rightarrow> 32 word \<times> TrueTypeTable \<times> bool" where
  "InitTables_switch tbl tableMask =
     (if Tag tbl = TTAG_head then (tableMask OR ReqTable_head, tbl, False)
      else if Tag tbl = TTAG_hhea then (tableMask OR ReqTable_hhea, tbl, False)
      else if Tag tbl = TTAG_loca then (tableMask OR ReqTable_loca, tbl, False)
      else if Tag tbl = TTAG_maxp then (tableMask OR ReqTable_maxp, tbl, False)
      else if Tag tbl = TTAG_glyf then (tableMask OR ReqTable_glyf, tbl, False)
      else if Tag tbl = TTAG_hmtx then (tableMask OR ReqTable_hmtx, tbl, False)
      else if Tag tbl = TTAG_cvt \<or> Tag tbl = TTAG_fpgm \<or> Tag tbl = TTAG_prep
        then (tableMask, tbl, False)
      else if Tag tbl = TTAG_post then (tableMask, tbl\<lparr>Length := 32\<rparr>, Length tbl < 32)
      else (tableMask, tbl, True))"

text \<open>The \<open>for\<close> loop of \<open>InitTables\<close> from \<open>i\<close> on.\<close>

function InitTables_loop ::
  "8 word list \<Rightarrow> 16 word \<Rightarrow> nat \<Rightarrow> 32 word \<Rightarrow> TrueTypeTable list
     \<Rightarrow> PdfErrorCode + 32 word \<times> TrueTypeTable list" where
  "InitTables_loop dev tableCount i tableMask tables =
     (if i < unat tableCount
      then (case ReadUInt32BE dev (12 + 16 * i) of Inl e \<Rightarrow> Inl e | Inr tag \<Rightarrow>
           (case ReadUInt32BE dev (12 + 16 * i + 4) of Inl e \<Rightarrow> Inl e | Inr checksum \<Rightarrow>
           (case ReadUInt32BE dev (12 + 16 * i + 8) of Inl e \<Rightarrow> Inl e | Inr offset \<Rightarrow>
           (case ReadUInt32BE dev (12 + 16 * i + 12) of Inl e \<Rightarrow> Inl e | Inr len \<Rightarrow>
             (case InitTables_switch
                     \<lparr>Tag = tag, Checksum = checksum, Length = len, Offset = offset\<rparr> tableMask of
                (tableMask', tbl, skipTable) \<Rightarrow>
                  InitTables_loop dev tableCount (i + 1) tableMask'
                    (if \<not> skipTable then tables @ [tbl] else tables))))))
      else Inr (tableMask, tables))"
  by pat_completeness auto
termination
  by (relation "measure (\<lambda>(dev, tableCount, i, tableMask, tables). unat tableCount - i)") auto

definition InitTables :: "PdfFontTrueTypeSubset \<Rightarrow> PdfErrorCode + PdfFontTrueTypeSubset" where
  "InitTables s =
     (case ReadUInt16BE (m_device s) 4 of Inl e \<Rightarrow> Inl e | Inr tableCount \<Rightarrow>
      (case InitTables_loop (m_device s) tableCount 0 ReqTable_none (m_tables s) of
         Inl e \<Rightarrow> Inl e
       | Inr (tableMask, tables) \<Rightarrow>
           if tableMask AND ReqTable_all = ReqTable_none then Inl UnsupportedFontFormat
           else Inr (s\<lparr>m_tables := tables\<rparr>)))"

fun GetTableOffset :: "TrueTypeTable list \<Rightarrow> 32 word \<Rightarrow> PdfErrorCode + 32 word" where
  "GetTableOffset [] tag = Inl InternalLogic"
| "GetTableOffset (table # tables) tag =
     (if Tag table = tag then Inr (Offset table) else GetTableOffset tables tag)"

definition GetNumberOfGlyphs :: "PdfFontTrueTypeSubset \<Rightarrow> PdfErrorCode + PdfFontTrueTypeSubset" where
  "GetNumberOfGlyphs s =
     (case GetTableOffset (m_tables s) TTAG_maxp of Inl e \<Rightarrow> Inl e | Inr offset \<Rightarrow>
      (case ReadUInt16BE (m_device s) (unat offset + 4) of Inl e \<Rightarrow> Inl e | Inr glyphCount \<Rightarrow>
      (case GetTableOffset (m_tables s) TTAG_hhea of Inl e \<Rightarrow> Inl e | Inr offset' \<Rightarrow>
      (case ReadUInt16BE (m_device s) (unat offset' + 34) of Inl e \<Rightarrow> Inl e | Inr hMetricsCount \<Rightarrow>
         Inr (s\<lparr>m_glyphCount := glyphCount, m_HMetricsCount := hMetricsCount\<rparr>)))))"

definition SeeIfLongLocaOrNot :: "PdfFontTrueTypeSubset \<Rightarrow> PdfErrorCode + PdfFontTrueTypeSubset" where
  "SeeIfLongLocaOrNot s =
     (case GetTableOffset (m_tables s) TTAG_head of Inl e \<Rightarrow> Inl e | Inr headOffset \<Rightarrow>
      (case ReadUInt16BE (m_device s) (unat (headOffset + 50)) of Inl e \<Rightarrow> Inl e | Inr isLong \<Rightarrow>
         Inr (s\<lparr>m_isLongLoca := (if isLong = 0 then False else True)\<rparr>)))"

definition Init :: "PdfFontTrueTypeSubset \<Rightarrow> PdfErrorCode + PdfFontTrueTypeSubset" where
  "Init s =
     (case InitTables s of Inl e \<Rightarrow> Inl e | Inr s1 \<Rightarrow>
      (case GetNumberOfGlyphs s1 of Inl e \<Rightarrow> Inl e | Inr s2 \<Rightarrow> SeeIfLongLocaOrNot s2))"

subsection \<open>Loading the glyphs\<close>

definition ReadGlyphCompoundData :: "8 word list \<Rightarrow> 32 word \<Rightarrow> PdfErrorCode + GlyphCompoundData" where
  "ReadGlyphCompoundData dev offset =
     (case ReadUInt16BE dev (unat offset) of Inl e \<Rightarrow> Inl e | Inr temp \<Rightarrow>
      (case ReadUInt16BE dev (unat offset + 2) of Inl e \<Rightarrow> Inl e | Inr temp' \<Rightarrow>
         Inr \<lparr>Flags = ucast temp, GlyphIndex = ucast temp'\<rparr>))"

text \<open>
  \<open>TryAdvanceCompoundOffset\<close>: \<open>None\<close> for \<open>false\<close> (the offset is left as it is),
  the advanced offset for \<open>true\<close>.
\<close>

definition TryAdvanceCompoundOffset :: "32 word \<Rightarrow> 32 word \<Rightarrow> 32 word option" where
  "TryAdvanceCompoundOffset offset flags =
     (if flags AND 0x20 = 0 then None
      else (let offset1 = offset + (if flags AND 0x01 \<noteq> 0 then 8 else 6)
            in Some (if flags AND 0x08 \<noteq> 0 then offset1 + 2
                     else if flags AND 0x40 \<noteq> 0 then offset1 + 4
                     else if flags AND 0x80 \<noteq> 0 then offset1 + 8
                     else offset1)))"

text \<open>
  The reads of \<open>LoadGID\<close> for a glyph that is not loaded yet: the two \<open>loca\<close> entries,
  in long or short form, and the contour count at the start of the glyph, whose sign
  tells a compound glyph.
\<close>

definition ReadGlyphData ::
  "8 word list \<Rightarrow> bool \<Rightarrow> GlyphContext \<Rightarrow> 32 word \<Rightarrow> PdfErrorCode + GlyphData" where
  "ReadGlyphData dev isLongLoca ctx gid =
     (case (if isLongLoca
            then (case ReadUInt32BE dev (unat (LocaTableOffset ctx) + 4 * unat gid) of
                    Inl e \<Rightarrow> Inl e
                  | Inr offset1 \<Rightarrow>
                     (case ReadUInt32BE dev (unat (LocaTableOffset ctx) + 4 * unat (gid + 1)) of
                        Inl e \<Rightarrow> Inl e
                      | Inr offset2 \<Rightarrow> Inr (offset1, offset2)))
            else (case ReadUInt16BE dev (unat (LocaTableOffset ctx) + 2 * unat gid) of
                    Inl e \<Rightarrow> Inl e
                  | Inr offset1 \<Rightarrow>
                     (case ReadUInt16BE dev (unat (LocaTableOffset ctx) + 2 * unat (gid + 1)) of
                        Inl e \<Rightarrow> Inl e
                      | Inr offset2 \<Rightarrow>
                          Inr (push_bit 1 (ucast offset1 :: 32 word),
                               push_bit 1 (ucast offset2 :: 32 word))))) of
        Inl e \<Rightarrow> Inl e
      | Inr (offset1, offset2) \<Rightarrow>
         (let glyphOffset = GlyfTableOffset ctx + offset1
          in (case ReadUInt16BE dev (unat glyphOffset) of
                Inl e \<Rightarrow> Inl e
              | Inr contourCount \<Rightarrow>
                  Inr \<lparr>IsCompound = (sint contourCount < 0),
                       GlyphOffset = glyphOffset,
                       GlyphLength = offset2 - offset1,
                       GlyphAdvOffset = glyphOffset + 10,
                       CompoundComponents = []\<rparr>)))"

text \<open>
  \<open>LoadGID\<close> and the loop of \<open>LoadCompound\<close> call each other, and the loop follows
  offsets read from the font, so the pair is defined with fuel: one unit for each call of
  \<open>LoadGID\<close> and for each round of the loop, and \<open>None\<close> when the fuel runs out.
  \<open>LoadCompound fuel ctx s data offset\<close> is the loop at \<open>offset\<close>; the function
  \<open>LoadCompound\<close> of the source is the loop at offset 0.
\<close>

fun LoadGID ::
  "nat \<Rightarrow> GlyphContext \<Rightarrow> PdfFontTrueTypeSubset \<Rightarrow> 32 word
     \<Rightarrow> (PdfErrorCode + PdfFontTrueTypeSubset) option"
and LoadCompound ::
  "nat \<Rightarrow> GlyphContext \<Rightarrow> PdfFontTrueTypeSubset \<Rightarrow> GlyphData \<Rightarrow> 32 word
     \<Rightarrow> (PdfErrorCode + PdfFontTrueTypeSubset) option" where
  "LoadGID 0 ctx s gid = None"
| "LoadGID (Suc fuel) ctx s gid =
     (if ucast (m_glyphCount s) \<le> gid then Some (Inl InternalLogic)
      else if std_map_find (m_glyphDatas s) gid \<noteq> None then Some (Inr s)
      else (case ReadGlyphData (m_device s) (m_isLongLoca s) ctx gid of
              Inl e \<Rightarrow> Some (Inl e)
            | Inr glyphData \<Rightarrow>
                (let s' = s\<lparr>m_glyphDatas := std_map_insert gid glyphData (m_glyphDatas s)\<rparr>
                 in if IsCompound glyphData then LoadCompound fuel ctx s' glyphData 0
                    else Some (Inr s'))))"
| "LoadCompound 0 ctx s data offset = None"
| "LoadCompound (Suc fuel) ctx s data offset =
     (case ReadGlyphCompoundData (m_device s) (GlyphAdvOffset data + offset) of
        Inl e \<Rightarrow> Some (Inl e)
      | Inr cmpData \<Rightarrow>
         (case LoadGID fuel ctx s (GlyphIndex cmpData) of
            None \<Rightarrow> None
          | Some (Inl e) \<Rightarrow> Some (Inl e)
          | Some (Inr s') \<Rightarrow>
             (case TryAdvanceCompoundOffset offset (Flags cmpData) of
                None \<Rightarrow> Some (Inr s')
              | Some offset' \<Rightarrow> LoadCompound fuel ctx s' data offset')))"

text \<open>\<open>for (unsigned gid : gidList) LoadGID(ctx, gid);\<close>\<close>

fun LoadGlyphs_load ::
  "nat \<Rightarrow> GlyphContext \<Rightarrow> PdfFontTrueTypeSubset \<Rightarrow> 32 word list
     \<Rightarrow> (PdfErrorCode + PdfFontTrueTypeSubset) option" where
  "LoadGlyphs_load fuel ctx s [] = Some (Inr s)"
| "LoadGlyphs_load fuel ctx s (gid # gidList) =
     (case LoadGID fuel ctx s gid of
        None \<Rightarrow> None
      | Some (Inl e) \<Rightarrow> Some (Inl e)
      | Some (Inr s') \<Rightarrow> LoadGlyphs_load fuel ctx s' gidList)"

text \<open>
  \<open>glyphIndexMap.insert({ gid, (unsigned)glyphIndexMap.size() })\<close>: the map after the
  call, and the \<open>second\<close> of the entry the returned iterator points to.
\<close>

definition glyphIndexMap_insert ::
  "(32 word \<times> 32 word) list \<Rightarrow> 32 word \<Rightarrow> (32 word \<times> 32 word) list" where
  "glyphIndexMap_insert glyphIndexMap gid =
     (case std_map_find glyphIndexMap gid of
        None \<Rightarrow> std_map_insert gid (of_nat (length glyphIndexMap)) glyphIndexMap
      | Some _ \<Rightarrow> glyphIndexMap)"

definition glyphIndexMap_second :: "(32 word \<times> 32 word) list \<Rightarrow> 32 word \<Rightarrow> 32 word" where
  "glyphIndexMap_second glyphIndexMap gid =
     (case std_map_find glyphIndexMap gid of
        None \<Rightarrow> of_nat (length glyphIndexMap)
      | Some index \<Rightarrow> index)"

text \<open>
  The loop over \<open>gidList\<close> that fills \<open>glyphIndexMap\<close> and \<open>m_orderedGIDs\<close>: the
  insertion does nothing for a key the map holds, the \<open>push_back\<close> is done every time.
\<close>

fun LoadGlyphs_index ::
  "32 word list \<Rightarrow> (32 word \<times> 32 word) list \<times> 32 word list
     \<Rightarrow> (32 word \<times> 32 word) list \<times> 32 word list" where
  "LoadGlyphs_index [] (glyphIndexMap, orderedGIDs) = (glyphIndexMap, orderedGIDs)"
| "LoadGlyphs_index (gid # gidList) (glyphIndexMap, orderedGIDs) =
     LoadGlyphs_index gidList (glyphIndexMap_insert glyphIndexMap gid, orderedGIDs @ [gid])"

text \<open>
  The \<open>while (true)\<close> loop of \<open>LoadGlyphs\<close> over the components of one compound glyph,
  at \<open>offset\<close>, with fuel for its rounds.
\<close>

fun LoadGlyphs_components ::
  "nat \<Rightarrow> 8 word list \<Rightarrow> GlyphData \<Rightarrow> 32 word
     \<Rightarrow> (32 word \<times> 32 word) list \<times> 32 word list
     \<Rightarrow> (PdfErrorCode + GlyphData \<times> (32 word \<times> 32 word) list \<times> 32 word list) option" where
  "LoadGlyphs_components 0 dev glyphData offset (glyphIndexMap, orderedGIDs) = None"
| "LoadGlyphs_components (Suc fuel) dev glyphData offset (glyphIndexMap, orderedGIDs) =
     (let componentGlyphIdOffset = GlyphAdvOffset glyphData + offset
      in (case ReadGlyphCompoundData dev componentGlyphIdOffset of
            Inl e \<Rightarrow> Some (Inl e)
          | Inr cmpData \<Rightarrow>
             (let inserted = (std_map_find glyphIndexMap (GlyphIndex cmpData) = None);
                  index = glyphIndexMap_second glyphIndexMap (GlyphIndex cmpData);
                  glyphIndexMap' = glyphIndexMap_insert glyphIndexMap (GlyphIndex cmpData);
                  orderedGIDs' =
                    (if inserted then orderedGIDs @ [GlyphIndex cmpData] else orderedGIDs);
                  glyphData' = glyphData
                    \<lparr>CompoundComponents := CompoundComponents glyphData @
                       [\<lparr>component_Offset =
                            componentGlyphIdOffset + 2 - GlyphOffset glyphData,
                          component_GlyphIndex = index\<rparr>]\<rparr>
              in (case TryAdvanceCompoundOffset offset (Flags cmpData) of
                    None \<Rightarrow> Some (Inr (glyphData', glyphIndexMap', orderedGIDs'))
                  | Some offset' \<Rightarrow>
                      LoadGlyphs_components fuel dev glyphData' offset'
                        (glyphIndexMap', orderedGIDs')))))"

text \<open>\<open>for (auto& pair : m_glyphDatas)\<close>, from the entry at the head of the list on.\<close>

fun LoadGlyphs_remap ::
  "nat \<Rightarrow> 8 word list \<Rightarrow> (32 word \<times> GlyphData) list
     \<Rightarrow> (32 word \<times> 32 word) list \<times> 32 word list
     \<Rightarrow> (PdfErrorCode
           + (32 word \<times> GlyphData) list \<times> (32 word \<times> 32 word) list \<times> 32 word list) option" where
  "LoadGlyphs_remap fuel dev [] (glyphIndexMap, orderedGIDs) =
     Some (Inr ([], glyphIndexMap, orderedGIDs))"
| "LoadGlyphs_remap fuel dev (pair # rest) (glyphIndexMap, orderedGIDs) =
     (case (if \<not> IsCompound (snd pair) then Some (Inr (snd pair, glyphIndexMap, orderedGIDs))
            else LoadGlyphs_components fuel dev (snd pair) 0 (glyphIndexMap, orderedGIDs)) of
        None \<Rightarrow> None
      | Some (Inl e) \<Rightarrow> Some (Inl e)
      | Some (Inr (glyphData, glyphIndexMap', orderedGIDs')) \<Rightarrow>
         (case LoadGlyphs_remap fuel dev rest (glyphIndexMap', orderedGIDs') of
            None \<Rightarrow> None
          | Some (Inl e) \<Rightarrow> Some (Inl e)
          | Some (Inr (rest', glyphIndexMap'', orderedGIDs'')) \<Rightarrow>
              Some (Inr ((fst pair, glyphData) # rest', glyphIndexMap'', orderedGIDs''))))"

definition LoadGlyphs ::
  "nat \<Rightarrow> GlyphContext \<Rightarrow> PdfFontTrueTypeSubset \<Rightarrow> 32 word list
     \<Rightarrow> (PdfErrorCode + PdfFontTrueTypeSubset) option" where
  "LoadGlyphs fuel ctx s gidList =
     (case LoadGID fuel ctx s 0 of
        None \<Rightarrow> None
      | Some (Inl e) \<Rightarrow> Some (Inl e)
      | Some (Inr s1) \<Rightarrow>
         (case LoadGlyphs_load fuel ctx s1 gidList of
            None \<Rightarrow> None
          | Some (Inl e) \<Rightarrow> Some (Inl e)
          | Some (Inr s2) \<Rightarrow>
             (case LoadGlyphs_remap fuel (m_device s2) (m_glyphDatas s2)
                     (LoadGlyphs_index gidList
                        (std_map_insert 0 0 [], m_orderedGIDs s2 @ [0])) of
                None \<Rightarrow> None
              | Some (Inl e) \<Rightarrow> Some (Inl e)
              | Some (Inr (glyphDatas, glyphIndexMap, orderedGIDs)) \<Rightarrow>
                  Some (Inr (s2\<lparr>m_glyphDatas := glyphDatas, m_orderedGIDs := orderedGIDs\<rparr>)))))"

subsection \<open>Writing the tables\<close>

text \<open>
  \<open>CopyData\<close>: the bytes read from the font at \<open>offset\<close> and handed to the output.
\<close>

definition CopyData :: "8 word list \<Rightarrow> 32 word \<Rightarrow> 32 word \<Rightarrow> PdfErrorCode + 8 word list" where
  "CopyData dev offset len = device_Read dev (unat offset) (unat len)"

text \<open>
  \<open>m_glyphDatas[gid]\<close>: the entry of the key, which \<open>operator[]\<close> creates, with all
  fields zero, when the map does not hold it.
\<close>

definition glyphDatas_at ::
  "(32 word \<times> GlyphData) list \<Rightarrow> 32 word \<Rightarrow> GlyphData \<times> (32 word \<times> GlyphData) list" where
  "glyphDatas_at glyphDatas gid =
     (case std_map_find glyphDatas gid of
        Some glyphData \<Rightarrow> (glyphData, glyphDatas)
      | None \<Rightarrow>
          (\<lparr>IsCompound = False, GlyphOffset = 0, GlyphLength = 0, GlyphAdvOffset = 0,
            CompoundComponents = []\<rparr>,
           std_map_insert gid
             \<lparr>IsCompound = False, GlyphOffset = 0, GlyphLength = 0, GlyphAdvOffset = 0,
               CompoundComponents = []\<rparr> glyphDatas))"

text \<open>
  A write of \<open>bytes\<close> into a buffer at \<open>pos\<close> through a raw pointer
  (\<open>buffer.data() + pos\<close>): undefined when it does not fit in the buffer.
\<close>

definition poke :: "8 word list \<Rightarrow> nat \<Rightarrow> 8 word list \<Rightarrow> PdfErrorCode + 8 word list" where
  "poke buffer pos bytes =
     (if pos + length bytes \<le> length buffer
      then Inr (take pos buffer @ bytes @ drop (pos + length bytes) buffer)
      else Inl UndefinedBehaviour)"

text \<open>The component fields of a compound glyph overwritten in the copy of its bytes.\<close>

fun fix_components :: "8 word list \<Rightarrow> GlyphCompoundComponentData list \<Rightarrow> PdfErrorCode + 8 word list" where
  "fix_components tmpBuffer [] = Inr tmpBuffer"
| "fix_components tmpBuffer (component # components) =
     (case poke tmpBuffer (unat (component_Offset component))
             (UInt16BE (ucast (component_GlyphIndex component))) of
        Inl e \<Rightarrow> Inl e
      | Inr tmpBuffer' \<Rightarrow> fix_components tmpBuffer' components)"

text \<open>
  \<open>WriteGlyphTable\<close>, \<open>WriteHmtxTable\<close> and \<open>WriteLocaTable\<close>: the bytes appended
  to the output for the glyph ids from the head of the list on; the glyph and loca
  writers also return the glyph map, which \<open>operator[]\<close> may have extended.
\<close>

fun WriteGlyphTable_loop ::
  "8 word list \<Rightarrow> (32 word \<times> GlyphData) list \<Rightarrow> 32 word list
     \<Rightarrow> PdfErrorCode + 8 word list \<times> (32 word \<times> GlyphData) list" where
  "WriteGlyphTable_loop dev glyphDatas [] = Inr ([], glyphDatas)"
| "WriteGlyphTable_loop dev glyphDatas (gid # gids) =
     (case glyphDatas_at glyphDatas gid of
        (glyphData, glyphDatas') \<Rightarrow>
          (case (if GlyphLength glyphData = 0 then Inr []
                 else if IsCompound glyphData
                 then (case device_Read dev (unat (GlyphOffset glyphData))
                               (unat (GlyphLength glyphData)) of
                         Inl e \<Rightarrow> Inl e
                       | Inr tmpBuffer \<Rightarrow>
                           fix_components tmpBuffer (CompoundComponents glyphData))
                 else CopyData dev (GlyphOffset glyphData) (GlyphLength glyphData)) of
             Inl e \<Rightarrow> Inl e
           | Inr bytes \<Rightarrow>
               (case WriteGlyphTable_loop dev glyphDatas' gids of
                  Inl e \<Rightarrow> Inl e
                | Inr (rest, glyphDatas'') \<Rightarrow> Inr (bytes @ rest, glyphDatas''))))"

definition WriteGlyphTable ::
  "PdfFontTrueTypeSubset \<Rightarrow> PdfErrorCode + 8 word list \<times> PdfFontTrueTypeSubset" where
  "WriteGlyphTable s =
     (case WriteGlyphTable_loop (m_device s) (m_glyphDatas s) (m_orderedGIDs s) of
        Inl e \<Rightarrow> Inl e
      | Inr (bytes, glyphDatas) \<Rightarrow> Inr (bytes, s\<lparr>m_glyphDatas := glyphDatas\<rparr>))"

fun WriteHmtxTable_loop :: "8 word list \<Rightarrow> 32 word \<Rightarrow> 32 word list \<Rightarrow> PdfErrorCode + 8 word list" where
  "WriteHmtxTable_loop dev tableOffset [] = Inr []"
| "WriteHmtxTable_loop dev tableOffset (gid # gids) =
     (case CopyData dev (tableOffset + gid * 4) 4 of
        Inl e \<Rightarrow> Inl e
      | Inr bytes \<Rightarrow>
          (case WriteHmtxTable_loop dev tableOffset gids of
             Inl e \<Rightarrow> Inl e
           | Inr rest \<Rightarrow> Inr (bytes @ rest)))"

definition WriteHmtxTable :: "PdfFontTrueTypeSubset \<Rightarrow> PdfErrorCode + 8 word list" where
  "WriteHmtxTable s =
     (case GetTableOffset (m_tables s) TTAG_hmtx of
        Inl e \<Rightarrow> Inl e
      | Inr tableOffset \<Rightarrow> WriteHmtxTable_loop (m_device s) tableOffset (m_orderedGIDs s))"

fun WriteLocaTable_loop ::
  "bool \<Rightarrow> (32 word \<times> GlyphData) list \<Rightarrow> 32 word \<Rightarrow> 32 word list
     \<Rightarrow> 8 word list \<times> (32 word \<times> GlyphData) list" where
  "WriteLocaTable_loop isLongLoca glyphDatas glyphAddress [] =
     ((if isLongLoca then UInt32BE glyphAddress else UInt16BE (ucast (drop_bit 1 glyphAddress))),
      glyphDatas)"
| "WriteLocaTable_loop isLongLoca glyphDatas glyphAddress (gid # gids) =
     (case glyphDatas_at glyphDatas gid of
        (glyphData, glyphDatas') \<Rightarrow>
          (case WriteLocaTable_loop isLongLoca glyphDatas'
                  (glyphAddress + GlyphLength glyphData) gids of
             (rest, glyphDatas'') \<Rightarrow>
               ((if isLongLoca then UInt32BE glyphAddress
                 else UInt16BE (ucast (drop_bit 1 glyphAddress))) @ rest,
                glyphDatas'')))"

definition WriteLocaTable :: "PdfFontTrueTypeSubset \<Rightarrow> 8 word list \<times> PdfFontTrueTypeSubset" where
  "WriteLocaTable s =
     (case WriteLocaTable_loop (m_isLongLoca s) (m_glyphDatas s) 0 (m_orderedGIDs s) of
        (bytes, glyphDatas) \<Rightarrow> (bytes, s\<lparr>m_glyphDatas := glyphDatas\<rparr>))"

text \<open>
  \<open>(uint16_t)m_glyphDatas.size()\<close>, which \<open>WriteTables\<close> writes into \<open>maxp\<close> as
  \<open>numGlyphs\<close> and into \<open>hhea\<close> as \<open>numOfLongHorMetrics\<close>.
\<close>

definition numGlyphs_written :: "PdfFontTrueTypeSubset \<Rightarrow> 16 word" where
  "numGlyphs_written s = of_nat (length (m_glyphDatas s))"

subsection \<open>The checksum\<close>

text \<open>
  \<open>GetTableCheksum\<close>.  \<open>buf\<close> points to \<open>char\<close>, so \<open>*buf++\<close> reads one byte and
  moves on by one byte; the byte is promoted to \<open>int\<close> and added to the 32-bit sum.
  Whether \<open>char\<close> is signed is left to the platform: \<open>char_is_signed\<close>.  The list is
  the memory from \<open>buf\<close> on; a read past its end is undefined.
\<close>

fun GetTableCheksum_loop :: "bool \<Rightarrow> 8 word list \<Rightarrow> nat \<Rightarrow> 32 word \<Rightarrow> PdfErrorCode + 32 word" where
  "GetTableCheksum_loop char_is_signed buf 0 acc = Inr acc"
| "GetTableCheksum_loop char_is_signed [] (Suc nLongs) acc = Inl UndefinedBehaviour"
| "GetTableCheksum_loop char_is_signed (b # buf) (Suc nLongs) acc =
     GetTableCheksum_loop char_is_signed buf nLongs
       (acc + (if char_is_signed then scast b else ucast b))"

definition GetTableCheksum :: "bool \<Rightarrow> 8 word list \<Rightarrow> 32 word \<Rightarrow> PdfErrorCode + 32 word" where
  "GetTableCheksum char_is_signed buf buf_size =
     GetTableCheksum_loop char_is_signed buf (unat ((buf_size + 3) div 4)) 0"

subsection \<open>WriteTables and BuildFont\<close>

text \<open>
  \<open>std::ceil(std::log2(n))\<close> for \<open>n \<ge> 1\<close>.
\<close>

function ceil_log2 :: "nat \<Rightarrow> nat" where
  "ceil_log2 n = (if n \<le> 1 then 0 else Suc (ceil_log2 ((n + 1) div 2)))"
  by pat_completeness auto
termination
  by (relation "measure (\<lambda>n. n)") auto

text \<open>The placeholder entry of a table in the directory.\<close>

definition directory_placeholder :: "TrueTypeTable \<Rightarrow> 8 word list" where
  "directory_placeholder tbl = UInt32BE (Tag tbl) @ UInt32BE 0 @ UInt32BE 0 @ UInt32BE 0"

text \<open>
  The \<open>switch\<close> of \<open>WriteTables\<close> on the tag of a table: the buffer after the table
  has been written, and the subsetter.  \<open>tableOffset\<close> is the length of the buffer
  before.
\<close>

definition WriteTables_switch ::
  "PdfFontTrueTypeSubset \<Rightarrow> 8 word list \<Rightarrow> TrueTypeTable
     \<Rightarrow> PdfErrorCode + 8 word list \<times> PdfFontTrueTypeSubset" where
  "WriteTables_switch s buffer tbl =
     (let tableOffset = length buffer in
      if Tag tbl = TTAG_head then
        (case CopyData (m_device s) (Offset tbl) (Length tbl) of Inl e \<Rightarrow> Inl e | Inr bytes \<Rightarrow>
         (case poke (buffer @ bytes) (tableOffset + 4) (UInt32BE 0) of Inl e \<Rightarrow> Inl e
          | Inr buffer' \<Rightarrow> Inr (buffer', s)))
      else if Tag tbl = TTAG_maxp then
        (case CopyData (m_device s) (Offset tbl) (Length tbl) of Inl e \<Rightarrow> Inl e | Inr bytes \<Rightarrow>
         (case poke (buffer @ bytes) (tableOffset + 4) (UInt16BE (numGlyphs_written s)) of
            Inl e \<Rightarrow> Inl e
          | Inr buffer' \<Rightarrow> Inr (buffer', s)))
      else if Tag tbl = TTAG_hhea then
        (case CopyData (m_device s) (Offset tbl) (Length tbl) of Inl e \<Rightarrow> Inl e | Inr bytes \<Rightarrow>
         (case poke (buffer @ bytes) (tableOffset + 34) (UInt16BE (numGlyphs_written s)) of
            Inl e \<Rightarrow> Inl e
          | Inr buffer' \<Rightarrow> Inr (buffer', s)))
      else if Tag tbl = TTAG_post then
        (case CopyData (m_device s) (Offset tbl) (Length tbl) of Inl e \<Rightarrow> Inl e | Inr bytes \<Rightarrow>
         (case poke (buffer @ bytes) tableOffset (UInt32BE 0x00030000) of Inl e \<Rightarrow> Inl e
          | Inr buffer' \<Rightarrow>
         (case poke buffer' (tableOffset + 16) (replicate 16 0) of Inl e \<Rightarrow> Inl e
          | Inr buffer'' \<Rightarrow> Inr (buffer'', s))))
      else if Tag tbl = TTAG_glyf then
        (case WriteGlyphTable s of Inl e \<Rightarrow> Inl e | Inr (bytes, s') \<Rightarrow> Inr (buffer @ bytes, s'))
      else if Tag tbl = TTAG_loca then
        (case WriteLocaTable s of (bytes, s') \<Rightarrow> Inr (buffer @ bytes, s'))
      else if Tag tbl = TTAG_hmtx then
        (case WriteHmtxTable s of Inl e \<Rightarrow> Inl e | Inr bytes \<Rightarrow> Inr (buffer @ bytes, s))
      else if Tag tbl = TTAG_cvt \<or> Tag tbl = TTAG_fpgm \<or> Tag tbl = TTAG_prep then
        (case CopyData (m_device s) (Offset tbl) (Length tbl) of Inl e \<Rightarrow> Inl e
         | Inr bytes \<Rightarrow> Inr (buffer @ bytes, s))
      else Inl InvalidEnumValue)"

text \<open>
  The second \<open>for\<close> loop of \<open>WriteTables\<close>, from table \<open>i\<close> on: the table is
  written and padded with zeros to a multiple of four bytes, then its checksum, its
  offset and its length are written into its directory entry.  \<open>headOffset\<close> is
  the \<open>nullable\<close> of the code.
\<close>

fun WriteTables_loop ::
  "bool \<Rightarrow> TrueTypeTable list \<Rightarrow> nat \<Rightarrow> PdfFontTrueTypeSubset \<Rightarrow> 8 word list \<Rightarrow> nat option
     \<Rightarrow> PdfErrorCode + 8 word list \<times> nat option \<times> PdfFontTrueTypeSubset" where
  "WriteTables_loop char_is_signed [] i s buffer headOffset = Inr (buffer, headOffset, s)"
| "WriteTables_loop char_is_signed (tbl # tables) i s buffer headOffset =
     (let tableOffset = length buffer in
      case WriteTables_switch s buffer tbl of Inl e \<Rightarrow> Inl e | Inr (buffer1, s1) \<Rightarrow>
        (let tableLength = length buffer1 - tableOffset;
             tableLengthPadded = (tableLength + 3) div 4 * 4;
             buffer2 = buffer1 @ replicate (tableLengthPadded - tableLength) 0;
             currDirTableOffset = 12 + i * 16
         in
         case GetTableCheksum char_is_signed (drop tableOffset buffer2) (of_nat tableLength) of
           Inl e \<Rightarrow> Inl e
         | Inr checksum \<Rightarrow>
         (case poke buffer2 (currDirTableOffset + 4) (UInt32BE checksum) of Inl e \<Rightarrow> Inl e
          | Inr buffer3 \<Rightarrow>
         (case poke buffer3 (currDirTableOffset + 8) (UInt32BE (of_nat tableOffset)) of
            Inl e \<Rightarrow> Inl e
          | Inr buffer4 \<Rightarrow>
         (case poke buffer4 (currDirTableOffset + 12) (UInt32BE (of_nat tableLength)) of
            Inl e \<Rightarrow> Inl e
          | Inr buffer5 \<Rightarrow>
              WriteTables_loop char_is_signed tables (i + 1) s1 buffer5
                (if Tag tbl = TTAG_head then Some tableOffset else headOffset))))))"

text \<open>
  \<open>WriteTables\<close>, into an output string that is empty at the call.  The conversion
  of \<open>ceil(log2(0))\<close> and of a power of two above \<open>65535\<close> to \<open>uint16_t\<close> is undefined.
\<close>

definition WriteTables :: "bool \<Rightarrow> PdfFontTrueTypeSubset \<Rightarrow> PdfErrorCode + 8 word list" where
  "WriteTables char_is_signed s =
     (let n = length (m_tables s) in
      if n = 0 \<or> 65535 < (2::nat) ^ ceil_log2 n then Inl UndefinedBehaviour
      else
        (let entrySelector = (of_nat (ceil_log2 n) :: 16 word);
             searchRange = (of_nat (2 ^ ceil_log2 n) :: 16 word);
             rangeShift = 16 * of_nat n - searchRange;
             header = UInt32BE 0x00010000 @ UInt16BE (of_nat n) @ UInt16BE searchRange
                        @ UInt16BE entrySelector @ UInt16BE rangeShift;
             buffer = header @ concat (map directory_placeholder (m_tables s))
         in
         case WriteTables_loop char_is_signed (m_tables s) 0 s buffer None of Inl e \<Rightarrow> Inl e
         | Inr (buffer', headOffset, s') \<Rightarrow>
             (case headOffset of None \<Rightarrow> Inl InternalLogic
              | Some head \<Rightarrow>
                  (case GetTableCheksum char_is_signed buffer' (of_nat (length buffer')) of
                     Inl e \<Rightarrow> Inl e
                   | Inr checksum \<Rightarrow>
                       poke buffer' (head + 4) (UInt32BE (0xB1B0AFBA - checksum))))))"

text \<open>
  \<open>BuildFont(buffer, gidList)\<close> on a subsetter newly constructed over the font: the
  bytes of the subset font.
\<close>

definition BuildFont ::
  "bool \<Rightarrow> nat \<Rightarrow> 8 word list \<Rightarrow> 32 word list \<Rightarrow> (PdfErrorCode + 8 word list) option" where
  "BuildFont char_is_signed fuel dev gidList =
     (case Init (new_PdfFontTrueTypeSubset dev) of Inl e \<Rightarrow> Some (Inl e) | Inr s \<Rightarrow>
      (case GetTableOffset (m_tables s) TTAG_glyf of Inl e \<Rightarrow> Some (Inl e) | Inr glyf \<Rightarrow>
      (case GetTableOffset (m_tables s) TTAG_loca of Inl e \<Rightarrow> Some (Inl e) | Inr loca \<Rightarrow>
      (case LoadGlyphs fuel \<lparr>GlyfTableOffset = glyf, LocaTableOffset = loca\<rparr> s gidList of
         None \<Rightarrow> None
       | Some (Inl e) \<Rightarrow> Some (Inl e)
       | Some (Inr s') \<Rightarrow> Some (WriteTables char_is_signed s')))))"

section \<open>What the claims ask for, and example values\<close>

text \<open>
  The checksum as the claim words it: the sum, wrapping modulo \<open>2^32\<close>, of the
  big-endian 32-bit words of the bytes, read as zeros past the end.
\<close>

fun checksum_of_words :: "8 word list \<Rightarrow> 32 word" where
  "checksum_of_words (a # b # c # d # rest) =
     of_nat (big_endian [a, b, c, d]) + checksum_of_words rest"
| "checksum_of_words [] = 0"
| "checksum_of_words bytes = of_nat (big_endian (take 4 (bytes @ [0, 0, 0])))"

text \<open>
  The component glyph ids of a compound glyph, in the order of its component records:
  the walk of the spec over the component headers from \<open>offset\<close> on (flags at +0,
  glyph id at +2, advance by the flags, stop when \<open>MORE_COMPONENTS\<close> is clear), with
  fuel for its steps.  \<open>None\<close> when the walk does not end within the fuel or runs into
  the end of the font.
\<close>

fun component_gids :: "nat \<Rightarrow> 8 word list \<Rightarrow> 32 word \<Rightarrow> 32 word \<Rightarrow> 32 word list option" where
  "component_gids 0 dev adv offset = None"
| "component_gids (Suc fuel) dev adv offset =
     (case ReadGlyphCompoundData dev (adv + offset) of
        Inl e \<Rightarrow> None
      | Inr cmpData \<Rightarrow>
          (case TryAdvanceCompoundOffset offset (Flags cmpData) of
             None \<Rightarrow> Some [GlyphIndex cmpData]
           | Some offset' \<Rightarrow>
               (case component_gids fuel dev adv offset' of
                  None \<Rightarrow> None
                | Some gids \<Rightarrow> Some (GlyphIndex cmpData # gids))))"

text \<open>
  The component glyph ids met by a pass over a glyph map in the order of the map
  (ascending glyph id), each compound glyph giving its components in record order.
\<close>

definition components_of_entry :: "nat \<Rightarrow> 8 word list \<Rightarrow> 32 word \<times> GlyphData \<Rightarrow> 32 word list" where
  "components_of_entry fuel dev pair =
     (if IsCompound (snd pair)
      then (case component_gids fuel dev (GlyphAdvOffset (snd pair)) 0 of
              None \<Rightarrow> []
            | Some gids \<Rightarrow> gids)
      else [])"

definition components_in_map_order ::
  "nat \<Rightarrow> 8 word list \<Rightarrow> (32 word \<times> GlyphData) list \<Rightarrow> 32 word list" where
  "components_in_map_order fuel dev glyphDatas =
     concat (map (components_of_entry fuel dev) glyphDatas)"

text \<open>The elements of a list in the order of their first occurrence.\<close>

definition first_occurrences :: "'a list \<Rightarrow> 'a list" where
  "first_occurrences xs = rev (remdups (rev xs))"

text \<open>
  The glyph graph of a font: \<open>c\<close> is a component of \<open>g\<close> when \<open>g\<close> is a compound
  glyph and \<open>c\<close> is among its component glyph ids.  The closure of a set of glyphs is
  what the graph reaches from it.
\<close>

definition component_of :: "8 word list \<Rightarrow> bool \<Rightarrow> GlyphContext \<Rightarrow> (32 word \<times> 32 word) set" where
  "component_of dev isLongLoca ctx =
     {(g, c). \<exists>glyphData fuel gids.
        ReadGlyphData dev isLongLoca ctx g = Inr glyphData \<and> IsCompound glyphData
        \<and> component_gids fuel dev (GlyphAdvOffset glyphData) 0 = Some gids \<and> c \<in> set gids}"

definition glyph_closure ::
  "8 word list \<Rightarrow> bool \<Rightarrow> GlyphContext \<Rightarrow> 32 word set \<Rightarrow> 32 word set" where
  "glyph_closure dev isLongLoca ctx roots = (component_of dev isLongLoca ctx)\<^sup>* `` roots"

text \<open>
  A glyph map is in order when its keys ascend and each entry holds what \<open>LoadGID\<close>
  reads from the font for its key.  \<open>glyph_keys\<close> are the glyph ids a subsetter has
  loaded.
\<close>

definition glyph_map_ok ::
  "8 word list \<Rightarrow> bool \<Rightarrow> GlyphContext \<Rightarrow> (32 word \<times> GlyphData) list \<Rightarrow> bool" where
  "glyph_map_ok dev isLongLoca ctx glyphDatas =
     (sorted_wrt (<) (map fst glyphDatas)
      \<and> list_all (\<lambda>pair. ReadGlyphData dev isLongLoca ctx (fst pair) = Inr (snd pair)) glyphDatas)"

definition glyph_keys :: "PdfFontTrueTypeSubset \<Rightarrow> 32 word set" where
  "glyph_keys s = fst ` set (m_glyphDatas s)"

text \<open>What the claim on \<open>GetNumber\<close> asks for: truncation toward zero.\<close>

definition truncate_toward_zero :: "real \<Rightarrow> int" where
  "truncate_toward_zero d = (if 0 \<le> d then \<lfloor>d\<rfloor> else \<lceil>d\<rceil>)"

text \<open>
  What the claim on writing a Real asks for: the rendering with the zeros at its end
  dropped, and then a point at its end dropped.
\<close>

definition drop_trailing_zeros_and_point :: "string \<Rightarrow> string" where
  "drop_trailing_zeros_and_point str =
     (let s = rev (dropWhile (\<lambda>c. c = CHR ''0'') (rev str))
      in if s \<noteq> [] \<and> last s = CHR ''.'' then butlast s else s)"

text \<open>A writer for the payload classes that is never reached when a Real is written.\<close>

definition no_pData_Write :: "UVariant \<Rightarrow> EPdfWriteMode \<Rightarrow> PdfErrorCode + string" where
  "no_pData_Write d eWriteMode = Inl InvalidHandle"

definition compact_mode :: EPdfWriteMode where
  "compact_mode = \<lparr>ePdfWriteMode_Compact = True, ePdfWriteMode_Clean = False\<rparr>"

text \<open>
  The positions from which the loop of \<open>operator==\<close> does not come back: both
  iterators on an entry, the two keys equal and the two values not different.
\<close>

definition eq_loop_stuck ::
  "(PdfVariant \<Rightarrow> PdfVariant \<Rightarrow> PdfErrorCode + bool)
     \<Rightarrow> (string \<times> PdfVariant) list \<Rightarrow> (string \<times> PdfVariant) list \<Rightarrow> bool" where
  "eq_loop_stuck ne thisIt rhsIt =
     (thisIt \<noteq> [] \<and> rhsIt \<noteq> [] \<and> fst (hd thisIt) = fst (hd rhsIt)
        \<and> ne (snd (hd thisIt)) (snd (hd rhsIt)) = Inr False)"

text \<open>Example values: a clean Number, a dirty Number, and dictionaries holding them.\<close>

definition number_seven :: PdfVariant where
  "number_seven = PdfVariant (VNumber 7) False False True"

definition dirty_number :: PdfVariant where
  "dirty_number = PdfVariant (VNumber 1) True False True"

definition empty_dictionary :: PdfDictionary where
  "empty_dictionary = PdfDictionary [] False False"

definition dictionary_A :: PdfDictionary where
  "dictionary_A = PdfDictionary [(''A'', number_seven)] False False"

definition dirty_dictionary :: PdfDictionary where
  "dirty_dictionary = PdfDictionary [(''A'', dirty_number)] True False"

definition dirty_dictionary_variant :: PdfVariant where
  "dirty_dictionary_variant = PdfVariant (VDictionary dirty_dictionary) True False True"

text \<open>
  What a successful load leaves behind: the other fields as they were, the map in
  order, no key lost, and every new key with all its components among the keys.
\<close>

definition load_post :: "GlyphContext \<Rightarrow> PdfFontTrueTypeSubset \<Rightarrow> PdfFontTrueTypeSubset \<Rightarrow> bool" where
  "load_post ctx s s' =
     (s' = s\<lparr>m_glyphDatas := m_glyphDatas s'\<rparr>
      \<and> glyph_map_ok (m_device s) (m_isLongLoca s) ctx (m_glyphDatas s')
      \<and> glyph_keys s \<subseteq> glyph_keys s'
      \<and> (\<forall>k \<in> glyph_keys s' - glyph_keys s.
            component_of (m_device s) (m_isLongLoca s) ctx `` {k} \<subseteq> glyph_keys s'))"

text \<open>What one component does to \<open>glyphIndexMap\<close> and \<open>m_orderedGIDs\<close>.\<close>

definition renumber_step ::
  "(32 word \<times> 32 word) list \<times> 32 word list \<Rightarrow> 32 word
     \<Rightarrow> (32 word \<times> 32 word) list \<times> 32 word list" where
  "renumber_step acc gid =
     (glyphIndexMap_insert (fst acc) gid,
      if std_map_find (fst acc) gid = None then snd acc @ [gid] else snd acc)"

text \<open>
  The occurrences in \<open>gidList\<close> of a glyph id that is zero or occurred before:
  \<open>repeated_occurrences [0] gidList\<close>.
\<close>

fun repeated_occurrences :: "32 word list \<Rightarrow> 32 word list \<Rightarrow> nat" where
  "repeated_occurrences seen [] = 0"
| "repeated_occurrences seen (gid # gidList) =
     (if gid \<in> set seen then 1 else 0) + repeated_occurrences (gid # seen) gidList"

text \<open>
  The position of the first occurrence of an element in a list, counted from 0, and
  what ties \<open>glyphIndexMap\<close> to the list of its keys in the order of their insertion:
  the map sends each key to its position in that list.
\<close>

definition position :: "'a list \<Rightarrow> 'a \<Rightarrow> nat" where
  "position xs x = length (takeWhile (\<lambda>y. y \<noteq> x) xs)"

definition index_ok :: "(32 word \<times> 32 word) list \<Rightarrow> 32 word list \<Rightarrow> bool" where
  "index_ok glyphIndexMap inserted \<longleftrightarrow>
     distinct inserted \<and> fst ` set glyphIndexMap = set inserted
     \<and> length glyphIndexMap = length inserted
     \<and> list_all (\<lambda>gid. std_map_find glyphIndexMap gid = Some (of_nat (position inserted gid)))
          inserted"

text \<open>
  Example fonts.  \<open>font_S5\<close> has eleven glyphs and a short \<open>loca\<close>: glyph 10 is
  compound over glyphs 5 and 7, glyph 7 is compound over glyph 3, the others are
  simple.  Its tables are \<open>glyf\<close> at 108, \<open>head\<close> at 308, \<open>hhea\<close> at 364, \<open>hmtx\<close> at
  400, \<open>loca\<close> at 444 and \<open>maxp\<close> at 468.  \<open>subset_S5\<close> is the subsetter after
  \<open>Init\<close>, \<open>subset_S5_loaded\<close> after \<open>LoadGlyphs\<close> with the list \<open>[10]\<close>,
  \<open>subset_S5_repeated\<close> after \<open>LoadGlyphs\<close> with the list \<open>[5, 0, 5]\<close>.
  \<open>font_without_hmtx\<close> has one simple glyph and all the tables of \<open>font_S5\<close> but
  \<open>hmtx\<close>; \<open>font_head_only\<close> is a header and a directory with the one entry
  \<open>head\<close>.  The \<open>subset_font\<close> values are the subset fonts written, where \<open>char\<close> is
  signed and, marked \<open>unsigned\<close>, where it is not.
\<close>

definition font_S5 :: "8 word list" where
  "font_S5 =
     [0, 1, 0, 0, 0, 6, 0, 0, 0, 0, 0, 0, 103, 108, 121, 102,
      0, 0, 0, 0, 0, 0, 0, 108, 0, 0, 0, 200, 104, 101, 97, 100,
      0, 0, 0, 0, 0, 0, 1, 52, 0, 0, 0, 54, 104, 104, 101, 97,
      0, 0, 0, 0, 0, 0, 1, 108, 0, 0, 0, 36, 104, 109, 116, 120,
      0, 0, 0, 0, 0, 0, 1, 144, 0, 0, 0, 44, 108, 111, 99, 97,
      0, 0, 0, 0, 0, 0, 1, 188, 0, 0, 0, 24, 109, 97, 120, 112,
      0, 0, 0, 0, 0, 0, 1, 212, 0, 0, 0, 6, 0, 1, 0, 0,
      0, 0, 0, 0, 0, 0, 0, 0, 0, 0, 1, 0, 2, 0, 0, 1,
      0, 0, 0, 0, 0, 0, 0, 0, 0, 0, 0, 0, 1, 1, 2, 0,
      0, 1, 0, 0, 0, 0, 0, 0, 0, 0, 0, 0, 0, 0, 1, 2,
      2, 0, 0, 1, 0, 0, 0, 0, 0, 0, 0, 0, 0, 0, 0, 0,
      1, 3, 2, 0, 0, 1, 0, 0, 0, 0, 0, 0, 0, 0, 0, 0,
      0, 0, 1, 4, 2, 0, 0, 1, 0, 0, 0, 0, 0, 0, 0, 0,
      0, 0, 0, 0, 1, 5, 2, 0, 0, 1, 0, 0, 0, 0, 0, 0,
      0, 0, 0, 0, 0, 0, 1, 6, 2, 0, 255, 255, 0, 0, 0, 0,
      0, 0, 0, 0, 0, 2, 0, 3, 0, 0, 0, 1, 0, 0, 0, 0,
      0, 0, 0, 0, 0, 0, 0, 0, 1, 8, 2, 0, 0, 1, 0, 0,
      0, 0, 0, 0, 0, 0, 0, 0, 0, 0, 1, 9, 2, 0, 255, 255,
      0, 0, 0, 0, 0, 0, 0, 0, 0, 34, 0, 5, 0, 0, 0, 2,
      0, 7, 0, 0, 0, 1, 0, 0, 0, 1, 0, 0, 18, 52, 86, 120,
      95, 15, 60, 245, 0, 0, 3, 232, 0, 0, 0, 0, 0, 0, 0, 0,
      0, 0, 0, 0, 0, 0, 0, 0, 0, 0, 0, 0, 0, 0, 0, 0,
      0, 0, 0, 8, 0, 2, 0, 0, 0, 0, 0, 0, 0, 1, 0, 0,
      3, 32, 255, 56, 0, 0, 2, 88, 0, 0, 0, 0, 0, 0, 0, 1,
      0, 0, 0, 0, 0, 0, 0, 0, 0, 0, 0, 0, 0, 0, 0, 11,
      1, 244, 0, 0, 1, 245, 0, 1, 1, 246, 0, 2, 1, 247, 0, 3,
      1, 248, 0, 4, 1, 249, 0, 5, 1, 250, 0, 6, 1, 251, 0, 7,
      1, 252, 0, 8, 1, 253, 0, 9, 1, 254, 0, 10, 0, 0, 0, 9,
      0, 18, 0, 27, 0, 36, 0, 45, 0, 54, 0, 63, 0, 71, 0, 80,
      0, 89, 0, 100, 0, 0, 80, 0, 0, 11, 0, 0]"

definition ctx_S5 :: "GlyphContext" where
  "ctx_S5 =
     \<lparr>GlyfTableOffset = 108, LocaTableOffset = 444\<rparr>"

definition subset_S5 :: "PdfFontTrueTypeSubset" where
  "subset_S5 =
     \<lparr>m_device = font_S5, m_isLongLoca = False, m_glyphCount = 11, m_HMetricsCount = 11,
      m_tables =
       [\<lparr>Tag = 1735162214, Checksum = 0, Length = 200, Offset = 108\<rparr>,
        \<lparr>Tag = 1751474532, Checksum = 0, Length = 54, Offset = 308\<rparr>,
        \<lparr>Tag = 1751672161, Checksum = 0, Length = 36, Offset = 364\<rparr>,
        \<lparr>Tag = 1752003704, Checksum = 0, Length = 44, Offset = 400\<rparr>,
        \<lparr>Tag = 1819239265, Checksum = 0, Length = 24, Offset = 444\<rparr>,
        \<lparr>Tag = 1835104368, Checksum = 0, Length = 6, Offset = 468\<rparr>],
      m_glyphDatas =
       [],
      m_orderedGIDs = []\<rparr>"

definition subset_S5_loaded :: "PdfFontTrueTypeSubset" where
  "subset_S5_loaded =
     \<lparr>m_device = font_S5, m_isLongLoca = False, m_glyphCount = 11, m_HMetricsCount = 11,
      m_tables =
       [\<lparr>Tag = 1735162214, Checksum = 0, Length = 200, Offset = 108\<rparr>,
        \<lparr>Tag = 1751474532, Checksum = 0, Length = 54, Offset = 308\<rparr>,
        \<lparr>Tag = 1751672161, Checksum = 0, Length = 36, Offset = 364\<rparr>,
        \<lparr>Tag = 1752003704, Checksum = 0, Length = 44, Offset = 400\<rparr>,
        \<lparr>Tag = 1819239265, Checksum = 0, Length = 24, Offset = 444\<rparr>,
        \<lparr>Tag = 1835104368, Checksum = 0, Length = 6, Offset = 468\<rparr>],
      m_glyphDatas =
       [(0, \<lparr>IsCompound = False, GlyphOffset = 108, GlyphLength = 18, GlyphAdvOffset = 118, CompoundComponents = []\<rparr>),
        (3, \<lparr>IsCompound = False, GlyphOffset = 162, GlyphLength = 18, GlyphAdvOffset = 172, CompoundComponents = []\<rparr>),
        (5, \<lparr>IsCompound = False, GlyphOffset = 198, GlyphLength = 18, GlyphAdvOffset = 208, CompoundComponents = []\<rparr>),
        (7, \<lparr>IsCompound = True, GlyphOffset = 234, GlyphLength = 16, GlyphAdvOffset = 244, CompoundComponents = [\<lparr>component_Offset = 12, component_GlyphIndex = 2\<rparr>]\<rparr>),
        (10, \<lparr>IsCompound = True, GlyphOffset = 286, GlyphLength = 22, GlyphAdvOffset = 296, CompoundComponents = [\<lparr>component_Offset = 12, component_GlyphIndex = 3\<rparr>, \<lparr>component_Offset = 18, component_GlyphIndex = 4\<rparr>]\<rparr>)],
      m_orderedGIDs = [0, 10, 3, 5, 7]\<rparr>"

definition subset_font_S5 :: "8 word list" where
  "subset_font_S5 =
     [0, 1, 0, 0, 0, 6, 0, 8, 0, 3, 0, 88, 103, 108, 121, 102,
      0, 0, 0, 2, 0, 0, 0, 108, 0, 0, 0, 92, 104, 101, 97, 100,
      0, 0, 1, 131, 0, 0, 0, 200, 0, 0, 0, 54, 104, 104, 101, 97,
      0, 0, 0, 91, 0, 0, 1, 0, 0, 0, 0, 36, 104, 109, 116, 120,
      255, 255, 255, 246, 0, 0, 1, 36, 0, 0, 0, 20, 108, 111, 99, 97,
      0, 0, 0, 0, 0, 0, 1, 56, 0, 0, 0, 12, 109, 97, 120, 112,
      0, 0, 0, 0, 0, 0, 1, 68, 0, 0, 0, 6, 0, 1, 0, 0,
      0, 0, 0, 0, 0, 0, 0, 0, 0, 0, 1, 0, 2, 0, 255, 255,
      0, 0, 0, 0, 0, 0, 0, 0, 0, 34, 0, 3, 0, 0, 0, 2,
      0, 4, 0, 0, 0, 1, 0, 0, 0, 0, 0, 0, 0, 0, 0, 0,
      0, 0, 1, 3, 2, 0, 0, 1, 0, 0, 0, 0, 0, 0, 0, 0,
      0, 0, 0, 0, 1, 5, 2, 0, 255, 255, 0, 0, 0, 0, 0, 0,
      0, 0, 0, 2, 0, 2, 0, 0, 0, 1, 0, 0, 177, 176, 166, 30,
      18, 52, 86, 120, 95, 15, 60, 245, 0, 0, 3, 232, 0, 0, 0, 0,
      0, 0, 0, 0, 0, 0, 0, 0, 0, 0, 0, 0, 0, 0, 0, 0,
      0, 0, 0, 0, 0, 0, 0, 8, 0, 2, 0, 0, 0, 0, 0, 0,
      0, 1, 0, 0, 3, 32, 255, 56, 0, 0, 2, 88, 0, 0, 0, 0,
      0, 0, 0, 1, 0, 0, 0, 0, 0, 0, 0, 0, 0, 0, 0, 0,
      0, 0, 0, 5, 1, 244, 0, 0, 1, 254, 0, 10, 1, 247, 0, 3,
      1, 249, 0, 5, 1, 251, 0, 7, 0, 0, 0, 9, 0, 20, 0, 29,
      0, 38, 0, 46, 0, 0, 80, 0, 0, 5, 0, 0]"

definition subset_font_S5_unsigned :: "8 word list" where
  "subset_font_S5_unsigned =
     [0, 1, 0, 0, 0, 6, 0, 8, 0, 3, 0, 88, 103, 108, 121, 102,
      0, 0, 2, 2, 0, 0, 0, 108, 0, 0, 0, 92, 104, 101, 97, 100,
      0, 0, 1, 131, 0, 0, 0, 200, 0, 0, 0, 54, 104, 104, 101, 97,
      0, 0, 1, 91, 0, 0, 1, 0, 0, 0, 0, 36, 104, 109, 116, 120,
      0, 0, 0, 246, 0, 0, 1, 36, 0, 0, 0, 20, 108, 111, 99, 97,
      0, 0, 0, 0, 0, 0, 1, 56, 0, 0, 0, 12, 109, 97, 120, 112,
      0, 0, 0, 0, 0, 0, 1, 68, 0, 0, 0, 6, 0, 1, 0, 0,
      0, 0, 0, 0, 0, 0, 0, 0, 0, 0, 1, 0, 2, 0, 255, 255,
      0, 0, 0, 0, 0, 0, 0, 0, 0, 34, 0, 3, 0, 0, 0, 2,
      0, 4, 0, 0, 0, 1, 0, 0, 0, 0, 0, 0, 0, 0, 0, 0,
      0, 0, 1, 3, 2, 0, 0, 1, 0, 0, 0, 0, 0, 0, 0, 0,
      0, 0, 0, 0, 1, 5, 2, 0, 255, 255, 0, 0, 0, 0, 0, 0,
      0, 0, 0, 2, 0, 2, 0, 0, 0, 1, 0, 0, 177, 176, 163, 24,
      18, 52, 86, 120, 95, 15, 60, 245, 0, 0, 3, 232, 0, 0, 0, 0,
      0, 0, 0, 0, 0, 0, 0, 0, 0, 0, 0, 0, 0, 0, 0, 0,
      0, 0, 0, 0, 0, 0, 0, 8, 0, 2, 0, 0, 0, 0, 0, 0,
      0, 1, 0, 0, 3, 32, 255, 56, 0, 0, 2, 88, 0, 0, 0, 0,
      0, 0, 0, 1, 0, 0, 0, 0, 0, 0, 0, 0, 0, 0, 0, 0,
      0, 0, 0, 5, 1, 244, 0, 0, 1, 254, 0, 10, 1, 247, 0, 3,
      1, 249, 0, 5, 1, 251, 0, 7, 0, 0, 0, 9, 0, 20, 0, 29,
      0, 38, 0, 46, 0, 0, 80, 0, 0, 5, 0, 0]"

definition subset_S5_repeated :: "PdfFontTrueTypeSubset" where
  "subset_S5_repeated =
     \<lparr>m_device = font_S5, m_isLongLoca = False, m_glyphCount = 11, m_HMetricsCount = 11,
      m_tables =
       [\<lparr>Tag = 1735162214, Checksum = 0, Length = 200, Offset = 108\<rparr>,
        \<lparr>Tag = 1751474532, Checksum = 0, Length = 54, Offset = 308\<rparr>,
        \<lparr>Tag = 1751672161, Checksum = 0, Length = 36, Offset = 364\<rparr>,
        \<lparr>Tag = 1752003704, Checksum = 0, Length = 44, Offset = 400\<rparr>,
        \<lparr>Tag = 1819239265, Checksum = 0, Length = 24, Offset = 444\<rparr>,
        \<lparr>Tag = 1835104368, Checksum = 0, Length = 6, Offset = 468\<rparr>],
      m_glyphDatas =
       [(0, \<lparr>IsCompound = False, GlyphOffset = 108, GlyphLength = 18, GlyphAdvOffset = 118, CompoundComponents = []\<rparr>),
        (5, \<lparr>IsCompound = False, GlyphOffset = 198, GlyphLength = 18, GlyphAdvOffset = 208, CompoundComponents = []\<rparr>)],
      m_orderedGIDs = [0, 5, 0, 5]\<rparr>"

definition font_without_hmtx :: "8 word list" where
  "font_without_hmtx =
     [0, 1, 0, 0, 0, 5, 0, 0, 0, 0, 0, 0, 103, 108, 121, 102,
      0, 0, 0, 0, 0, 0, 0, 92, 0, 0, 0, 18, 104, 101, 97, 100,
      0, 0, 0, 0, 0, 0, 0, 112, 0, 0, 0, 54, 104, 104, 101, 97,
      0, 0, 0, 0, 0, 0, 0, 168, 0, 0, 0, 36, 108, 111, 99, 97,
      0, 0, 0, 0, 0, 0, 0, 204, 0, 0, 0, 4, 109, 97, 120, 112,
      0, 0, 0, 0, 0, 0, 0, 208, 0, 0, 0, 6, 0, 1, 0, 0,
      0, 0, 0, 0, 0, 0, 0, 0, 0, 0, 1, 0, 2, 0, 0, 0,
      0, 1, 0, 0, 0, 1, 0, 0, 18, 52, 86, 120, 95, 15, 60, 245,
      0, 0, 3, 232, 0, 0, 0, 0, 0, 0, 0, 0, 0, 0, 0, 0,
      0, 0, 0, 0, 0, 0, 0, 0, 0, 0, 0, 0, 0, 0, 0, 8,
      0, 2, 0, 0, 0, 0, 0, 0, 0, 1, 0, 0, 3, 32, 255, 56,
      0, 0, 2, 88, 0, 0, 0, 0, 0, 0, 0, 1, 0, 0, 0, 0,
      0, 0, 0, 0, 0, 0, 0, 0, 0, 0, 0, 1, 0, 0, 0, 9,
      0, 0, 80, 0, 0, 1, 0, 0]"

definition subset_without_hmtx :: "PdfFontTrueTypeSubset" where
  "subset_without_hmtx =
     \<lparr>m_device = font_without_hmtx, m_isLongLoca = False, m_glyphCount = 1, m_HMetricsCount = 1,
      m_tables =
       [\<lparr>Tag = 1735162214, Checksum = 0, Length = 18, Offset = 92\<rparr>,
        \<lparr>Tag = 1751474532, Checksum = 0, Length = 54, Offset = 112\<rparr>,
        \<lparr>Tag = 1751672161, Checksum = 0, Length = 36, Offset = 168\<rparr>,
        \<lparr>Tag = 1819239265, Checksum = 0, Length = 4, Offset = 204\<rparr>,
        \<lparr>Tag = 1835104368, Checksum = 0, Length = 6, Offset = 208\<rparr>],
      m_glyphDatas =
       [],
      m_orderedGIDs = []\<rparr>"

definition subset_font_without_hmtx :: "8 word list" where
  "subset_font_without_hmtx =
     [0, 1, 0, 0, 0, 5, 0, 8, 0, 3, 0, 72, 103, 108, 121, 102,
      0, 0, 0, 1, 0, 0, 0, 92, 0, 0, 0, 18, 104, 101, 97, 100,
      0, 0, 1, 131, 0, 0, 0, 112, 0, 0, 0, 54, 104, 104, 101, 97,
      0, 0, 0, 91, 0, 0, 0, 168, 0, 0, 0, 36, 108, 111, 99, 97,
      0, 0, 0, 0, 0, 0, 0, 204, 0, 0, 0, 4, 109, 97, 120, 112,
      0, 0, 0, 0, 0, 0, 0, 208, 0, 0, 0, 6, 0, 1, 0, 0,
      0, 0, 0, 0, 0, 0, 0, 0, 0, 0, 1, 0, 2, 0, 0, 0,
      0, 1, 0, 0, 177, 176, 169, 147, 18, 52, 86, 120, 95, 15, 60, 245,
      0, 0, 3, 232, 0, 0, 0, 0, 0, 0, 0, 0, 0, 0, 0, 0,
      0, 0, 0, 0, 0, 0, 0, 0, 0, 0, 0, 0, 0, 0, 0, 8,
      0, 2, 0, 0, 0, 0, 0, 0, 0, 1, 0, 0, 3, 32, 255, 56,
      0, 0, 2, 88, 0, 0, 0, 0, 0, 0, 0, 1, 0, 0, 0, 0,
      0, 0, 0, 0, 0, 0, 0, 0, 0, 0, 0, 1, 0, 0, 0, 9,
      0, 0, 80, 0, 0, 1, 0, 0]"

definition subset_font_without_hmtx_unsigned :: "8 word list" where
  "subset_font_without_hmtx_unsigned =
     [0, 1, 0, 0, 0, 5, 0, 8, 0, 3, 0, 72, 103, 108, 121, 102,
      0, 0, 0, 1, 0, 0, 0, 92, 0, 0, 0, 18, 104, 101, 97, 100,
      0, 0, 1, 131, 0, 0, 0, 112, 0, 0, 0, 54, 104, 104, 101, 97,
      0, 0, 1, 91, 0, 0, 0, 168, 0, 0, 0, 36, 108, 111, 99, 97,
      0, 0, 0, 0, 0, 0, 0, 204, 0, 0, 0, 4, 109, 97, 120, 112,
      0, 0, 0, 0, 0, 0, 0, 208, 0, 0, 0, 6, 0, 1, 0, 0,
      0, 0, 0, 0, 0, 0, 0, 0, 0, 0, 1, 0, 2, 0, 0, 0,
      0, 1, 0, 0, 177, 176, 168, 146, 18, 52, 86, 120, 95, 15, 60, 245,
      0, 0, 3, 232, 0, 0, 0, 0, 0, 0, 0, 0, 0, 0, 0, 0,
      0, 0, 0, 0, 0, 0, 0, 0, 0, 0, 0, 0, 0, 0, 0, 8,
      0, 2, 0, 0, 0, 0, 0, 0, 0, 1, 0, 0, 3, 32, 255, 56,
      0, 0, 2, 88, 0, 0, 0, 0, 0, 0, 0, 1, 0, 0, 0, 0,
      0, 0, 0, 0, 0, 0, 0, 0, 0, 0, 0, 1, 0, 0, 0, 9,
      0, 0, 80, 0, 0, 1, 0, 0]"

definition font_head_only :: "8 word list" where
  "font_head_only =
     [0, 1, 0, 0, 0, 1, 0, 0, 0, 0, 0, 0, 104, 101, 97, 100,
      0, 0, 0, 0, 0, 0, 0, 28, 0, 0, 0, 54]"

section \<open>Reading a Real as a Number\<close>

lemma GetNumber_Real:
  "GetNumber (PdfVariant (VReal (Finite d)) dirty imm True) = static_cast_long \<lfloor>d\<rfloor>"
  by (simp add: GetNumber_def DelayedLoad_def IsReal_def IsNumber_def m_eDataType_def)

lemma static_cast_long_not_raise: "static_cast_long i \<noteq> Inl ValueOutOfRange"
  by (simp add: static_cast_long_def)

text \<open>
  C6, as stated, fails: on the Real \<open>-1.5\<close> the code returns \<open>-2\<close> (the floor), where
  truncation toward zero gives \<open>-1\<close>; and on the Real \<open>2^63\<close>, outside the signed 64-bit
  range, no \<open>ValueOutOfRange\<close> is raised.
\<close>

theorem C6_GetNumber_counterexample:
  "GetNumber (PdfVariant (VReal (Finite (- 3 / 2))) False False True) = Inr (- 2)
   \<and> truncate_toward_zero (- 3 / 2) = - 1
   \<and> GetNumber (PdfVariant (VReal (Finite (- 3 / 2))) False False True)
       \<noteq> Inr (word_of_int (truncate_toward_zero (- 3 / 2)))
   \<and> GetNumber (PdfVariant (VReal (Finite (2 ^ 63))) False False True) \<noteq> Inl ValueOutOfRange"
  by (simp add: GetNumber_Real static_cast_long_def truncate_toward_zero_def)

text \<open>
  C6, amended: for every loaded variant of kind Real holding \<open>d\<close>, \<open>GetNumber\<close> returns
  the floor of \<open>d\<close> (rounding toward minus infinity) as a 64-bit signed integer whenever
  that floor lies in the signed 64-bit range, and no call of \<open>GetNumber\<close> raises
  \<open>ValueOutOfRange\<close>.  The values \<open>d\<close> are those of the finite doubles; negative zero,
  whose floor is zero, reads as 0.
\<close>

theorem C6_GetNumber_floor:
  "(m_bDelayedLoadDone v \<and> m_Data v = VReal (Finite d) \<and> - (2 ^ 63) \<le> \<lfloor>d\<rfloor> \<and> \<lfloor>d\<rfloor> < 2 ^ 63
      \<longrightarrow> GetNumber v = Inr (word_of_int \<lfloor>d\<rfloor>) \<and> sint (word_of_int \<lfloor>d\<rfloor> :: 64 word) = \<lfloor>d\<rfloor>)
   \<and> (m_bDelayedLoadDone v \<and> m_Data v = VReal NegativeZero \<longrightarrow> GetNumber v = Inr 0)
   \<and> GetNumber v \<noteq> Inl ValueOutOfRange"
proof -
  have in_range: "sint (word_of_int i :: 64 word) = i" if "- (2 ^ 63) \<le> i" "i < 2 ^ 63" for i :: int
    using that by (simp add: sint_sbintrunc' signed_take_bit_int_eq_self)
  have cast: "static_cast_long_floor x \<noteq> Inl ValueOutOfRange" for x
    by (cases x) (simp_all add: static_cast_long_def)
  have no_raise: "GetNumber v \<noteq> Inl ValueOutOfRange"
    using cast
    by (cases v; cases "m_Data v")
       (auto simp: GetNumber_def DelayedLoad_def IsReal_def IsNumber_def m_eDataType_def)
  show ?thesis
    using in_range no_raise
    by (auto simp: GetNumber_def DelayedLoad_def IsReal_def IsNumber_def m_eDataType_def
          static_cast_long_def)
qed

theorem C6_GetNumber_floor_witness:
  "GetNumber (PdfVariant (VReal (Finite (- 5 / 2))) True False True) = Inr (- 3)
   \<and> sint (- 3 :: 64 word) = - 3
   \<and> GetNumber (PdfVariant (VReal NegativeZero) True False True) = Inr 0"
  using C6_GetNumber_floor [of "PdfVariant (VReal (Finite (- 5 / 2))) True False True" "- 5 / 2"]
    C6_GetNumber_floor [of "PdfVariant (VReal NegativeZero) True False True"]
  by simp

section \<open>Setting a reference\<close>

text \<open>
  C5: on a mutable, loaded variant of kind Reference the code raises \<open>InvalidDataType\<close>
  (the guard tests \<open>IsReference()\<close> where the sibling setters test the negation), so
  nothing is replaced and \<open>dirty\<close> is not set; and on a variant of another kind, such as a
  Bool, it does not raise \<open>InvalidDataType\<close>.
\<close>

theorem C5_SetReference_inverted_guard:
  "SetReference (PdfVariant (VReference (PdfReference 1 0)) False False True) (PdfReference 2 0)
     = Inl InvalidDataType
   \<and> SetReference (PdfVariant (VBool True) False False True) (PdfReference 2 0)
     \<noteq> Inl InvalidDataType"
  by (simp add: SetReference_def DelayedLoad_def IsReference_def m_eDataType_def
        AssertMutable_def)



section \<open>Dictionary equality\<close>

lemma PdfDictionary_eq_loop_stuck:
  "PdfDictionary_eq_loop ne thisIt rhsIt = Some y \<Longrightarrow> \<not> eq_loop_stuck ne thisIt rhsIt"
proof (rule PdfDictionary_eq_loop.raw_induct
    [where P = "\<lambda>ne thisIt rhsIt y. \<not> eq_loop_stuck ne thisIt rhsIt"])
  show "PdfDictionary_eq_loop ne thisIt rhsIt = Some y
    \<Longrightarrow> PdfDictionary_eq_loop ne thisIt rhsIt = Some y" .
next
  fix loop :: "(PdfVariant \<Rightarrow> PdfVariant \<Rightarrow> PdfErrorCode + bool)
     \<Rightarrow> (string \<times> PdfVariant) list \<Rightarrow> (string \<times> PdfVariant) list
     \<Rightarrow> (PdfErrorCode + bool) option"
   and ne thisIt rhsIt and y :: "PdfErrorCode + bool"
  assume IH: "\<And>ne thisIt rhsIt y. loop ne thisIt rhsIt = Some y
    \<Longrightarrow> \<not> eq_loop_stuck ne thisIt rhsIt"
  assume body: "(if thisIt \<noteq> [] \<and> rhsIt \<noteq> []
      then (if fst (hd thisIt) \<noteq> fst (hd rhsIt) then Some (Inr False)
            else (case ne (snd (hd thisIt)) (snd (hd rhsIt)) of
                    Inl e \<Rightarrow> Some (Inl e)
                  | Inr differ \<Rightarrow>
                      if differ then Some (Inr False)
                      else loop ne thisIt rhsIt))
      else (if thisIt \<noteq> [] \<or> rhsIt \<noteq> [] then Some (Inl InternalLogic)
            else Some (Inr True))) = Some y"
  show "\<not> eq_loop_stuck ne thisIt rhsIt"
  proof
    assume s: "eq_loop_stuck ne thisIt rhsIt"
    with body have "loop ne thisIt rhsIt = Some y" by (simp add: eq_loop_stuck_def)
    from IH [OF this] s show False by blast
  qed
qed

lemma PdfDictionary_eq_loop_None:
  "eq_loop_stuck ne thisIt rhsIt \<Longrightarrow> PdfDictionary_eq_loop ne thisIt rhsIt = None"
  using PdfDictionary_eq_loop_stuck [of ne thisIt rhsIt]
  by (cases "PdfDictionary_eq_loop ne thisIt rhsIt") auto

text \<open>
  C4: two distinct dictionaries that both hold the single entry \<open>/A 7\<close> have identical
  entries, and \<open>operator==\<close> does not return on them: the loop compares the first entries,
  finds them equal, and starts again from the same iterators.  Only the empty
  dictionaries compare equal.
\<close>

theorem C4_operator_eq_does_not_return:
  "PdfDictionary_eq ne_by_value False dictionary_A dictionary_A = None
   \<and> PdfDictionary_eq ne_by_value False empty_dictionary empty_dictionary = Some (Inr True)"
proof -
  have "eq_loop_stuck ne_by_value [(''A'', number_seven)] [(''A'', number_seven)]"
    by (simp add: eq_loop_stuck_def ne_by_value_def)
  then have "PdfDictionary_eq_loop ne_by_value [(''A'', number_seven)] [(''A'', number_seven)] = None"
    by (rule PdfDictionary_eq_loop_None)
  moreover have "PdfDictionary_eq_loop ne_by_value [] [] = Some (Inr True)"
    by (subst PdfDictionary_eq_loop.simps) simp
  ultimately show ?thesis
    by (simp add: PdfDictionary_eq_def dictionary_A_def empty_dictionary_def)
qed

section \<open>The empty name as a key\<close>

lemma PdfVariant_copy_number_seven: "PdfVariant_copy number_seven = Inr number_seven"
  by (simp add: number_seven_def)

text \<open>
  C8: after \<open>AddKey\<close> with the empty name and the Number 7 on an empty dictionary, the
  entry is there (\<open>HasKey\<close> finds it and \<open>RemoveKey\<close> removes it), and \<open>getKey\<close> on the
  empty name returns null: its guard on the length of the key comes before the lookup.
\<close>

theorem C8_getKey_refuses_empty_name:
  "AddKey None empty_dictionary [] number_seven = Inr (PdfDictionary [([], number_seven)] True False)
   \<and> getKey (PdfDictionary [([], number_seven)] True False) [] = None
   \<and> HasKey (PdfDictionary [([], number_seven)] True False) []
   \<and> RemoveKey (PdfDictionary [([], number_seven)] True False) []
       = Inr (True, PdfDictionary [] True False)"
  by (simp add: AddKey_def empty_dictionary_def PdfVariant_copy_number_seven getKey_def
        HasKey_def RemoveKey_def std_map_erase_def)

section \<open>Copies are clean\<close>

lemma SetDirty_False_clean:
  "\<not> IsDirty (SetDirty False v)"
  "(case u of
      VArray a \<Rightarrow> \<not> PdfArray_IsDirty (PdfArray_SetDirty False a)
    | VDictionary d \<Rightarrow> \<not> PdfDictionary_IsDirty (PdfDictionary_SetDirty False d)
    | _ \<Rightarrow> True)"
  "\<not> PdfDictionary_IsDirty (PdfDictionary_SetDirty False d)"
  "\<not> PdfArray_IsDirty (PdfArray_SetDirty False a)"
  by (induction v and u and d and a) (auto split: UVariant.splits)

lemma sequence_sum_Inr: "sequence_sum xs = Inr ys \<Longrightarrow> xs = map Inr ys"
  by (induction xs arbitrary: ys) (auto split: sum.splits)

lemma PdfVariant_copy_clean: "PdfVariant_copy rhs = Inr v \<Longrightarrow> \<not> IsDirty v"
  by (cases rhs) (auto simp: SetDirty_False_clean(1) split: sum.splits)

lemma PdfDictionary_copy_clean:
  assumes "PdfDictionary_copy rhs = Inr d"
  shows "\<not> PdfDictionary_IsDirty d"
proof (cases rhs)
  case (PdfDictionary keys dirty imm)
  with assms obtain keys' where
    seq: "sequence_sum (map (\<lambda>it. case PdfVariant_copy (snd it) of
                          Inl e \<Rightarrow> Inl e
                        | Inr obj \<Rightarrow> Inr (fst it, obj)) keys) = Inr keys'"
    and d: "d = PdfDictionary keys' False imm"
    by (auto split: sum.splits)
  have "\<not> IsDirty (snd it')" if "it' \<in> set keys'" for it'
  proof -
    from that have "Inr it' \<in> set (map Inr keys' :: (PdfErrorCode + string \<times> PdfVariant) list)"
      by simp
    then have "Inr it' \<in> set (map (\<lambda>it. case PdfVariant_copy (snd it) of
                          Inl e \<Rightarrow> Inl e
                        | Inr obj \<Rightarrow> Inr (fst it, obj)) keys)"
      by (simp only: sequence_sum_Inr [OF seq])
    then obtain it where "it \<in> set keys"
      and "(case PdfVariant_copy (snd it) of Inl e \<Rightarrow> Inl e | Inr obj \<Rightarrow> Inr (fst it, obj)) = Inr it'"
      by auto
    then have "PdfVariant_copy (snd it) = Inr (snd it')"
      by (auto split: sum.splits)
    then show ?thesis by (rule PdfVariant_copy_clean)
  qed
  with d show ?thesis by auto
qed

text \<open>
  C9: a variant produced by the copy constructor of \<open>PdfVariant\<close>, and a dictionary
  produced by the copy constructor of \<open>PdfDictionary\<close>, reports \<open>IsDirty() == false\<close>,
  whatever the dirty state of the source.
\<close>

theorem C9_copy_is_clean:
  "(PdfVariant_copy rhs = Inr v \<longrightarrow> \<not> IsDirty v)
   \<and> (PdfDictionary_copy drhs = Inr d \<longrightarrow> \<not> PdfDictionary_IsDirty d)"
  using PdfVariant_copy_clean PdfDictionary_copy_clean by blast

theorem C9_copy_is_clean_witness:
  "IsDirty dirty_dictionary_variant
   \<and> PdfVariant_copy dirty_dictionary_variant
       = Inr (PdfVariant (VDictionary (PdfDictionary [(''A'', PdfVariant (VNumber 1) False False True)]
                False False)) False False True)
   \<and> \<not> IsDirty (PdfVariant (VDictionary (PdfDictionary [(''A'', PdfVariant (VNumber 1) False False True)]
                False False)) False False True)
   \<and> PdfDictionary_IsDirty dirty_dictionary
   \<and> PdfDictionary_copy dirty_dictionary
       = Inr (PdfDictionary [(''A'', PdfVariant (VNumber 1) False False True)] False False)
   \<and> \<not> PdfDictionary_IsDirty (PdfDictionary [(''A'', PdfVariant (VNumber 1) False False True)] False False)"
  using C9_copy_is_clean
    [of dirty_dictionary_variant
        "PdfVariant (VDictionary (PdfDictionary [(''A'', PdfVariant (VNumber 1) False False True)]
                False False)) False False True"
        dirty_dictionary
        "PdfDictionary [(''A'', PdfVariant (VNumber 1) False False True)] False False"]
  by (simp add: dirty_dictionary_variant_def dirty_dictionary_def dirty_number_def)



section \<open>Writing a Real in compact mode\<close>

declare decimal.simps [simp del]

lemma decimal_numeral [simp]:
  "decimal (numeral k) =
     (if (numeral k :: nat) < 10 then [''0123456789'' ! numeral k]
      else decimal (numeral k div 10) @ [''0123456789'' ! (numeral k mod 10)])"
  "decimal 0 = ''0''"
  "decimal (Suc 0) = ''1''"
  by (subst decimal.simps, simp)+

lemma ostream_fixed_examples:
  "ostream_fixed (Finite (3 / 2)) = ''1.500000''"
  "ostream_fixed (Finite 1) = ''1.000000''"
  "ostream_fixed (Finite 0) = ''0.000000''"
  "ostream_fixed (Finite (- (1 / 4))) = ''-0.250000''"
  by (simp_all add: fixed_point_def round_half_even_def Let_def)

text \<open>
  C7, as stated, fails: in compact mode the Reals 1.5, 1.0 and 0.0 are written as
  \<open>" 1.5"\<close>, \<open>" 1"\<close> and \<open>" 0"\<close>.  The space comes first whatever was written before,
  so the emitted bytes are not exactly \<open>"1.5"\<close>, \<open>"1"\<close> and \<open>"0"\<close>.
\<close>

theorem C7_Write_Real_counterexample:
  "PdfVariant_Write no_pData_Write (PdfVariant (VReal (Finite (3 / 2))) False False True) compact_mode = Inr '' 1.5''
   \<and> PdfVariant_Write no_pData_Write (PdfVariant (VReal (Finite (3 / 2))) False False True) compact_mode \<noteq> Inr ''1.5''
   \<and> PdfVariant_Write no_pData_Write (PdfVariant (VReal (Finite 1)) False False True) compact_mode \<noteq> Inr ''1''
   \<and> PdfVariant_Write no_pData_Write (PdfVariant (VReal (Finite 0)) False False True) compact_mode \<noteq> Inr ''0''"
  by (simp add: PdfVariant_Write_def DelayedLoad_def compact_mode_def ostream_fixed_examples
        del: ostream_fixed.simps)

lemma strip_trailing_zeros_eq:
  "n \<le> length str \<Longrightarrow> \<exists>i<n. str ! i \<noteq> CHR ''0'' \<Longrightarrow>
   strip_trailing_zeros str n
     = Some (length (dropWhile (\<lambda>c. c = CHR ''0'') (rev (take n str))))"
proof (induction n)
  case 0
  then show ?case by simp
next
  case (Suc n)
  then have n: "n < length str" by simp
  show ?case
  proof (cases "str ! n = CHR ''0''")
    case True
    with Suc.prems obtain i where "i < n" "str ! i \<noteq> CHR ''0''"
      by (metis less_Suc_eq)
    with Suc.IH n True show ?thesis
      by (auto simp: take_Suc_conv_app_nth)
  next
    case False
    with n show ?thesis by (simp add: take_Suc_conv_app_nth)
  qed
qed

lemma rev_dropWhile_rev_take:
  "rev (dropWhile P (rev xs)) = take (length (dropWhile P (rev xs))) xs"
proof -
  have "rev xs = takeWhile P (rev xs) @ dropWhile P (rev xs)" by simp
  then have "xs = rev (dropWhile P (rev xs)) @ rev (takeWhile P (rev xs))"
    by (metis rev_append rev_rev_ident)
  then have "take (length (rev (dropWhile P (rev xs)))) xs = rev (dropWhile P (rev xs))"
    by (metis append_eq_conv_conj)
  then show ?thesis by simp
qed

lemma decimal_chars: "decimal n \<noteq> [] \<and> CHR ''.'' \<notin> set (decimal n)"
proof (induction n rule: decimal.induct)
  case (1 n)
  have digit: "''0123456789'' ! m \<noteq> CHR ''.''" if "m < 10" for m :: nat
  proof -
    from that have "m \<in> {0, 1, 2, 3, 4, 5, 6, 7, 8, 9}" by auto
    then show ?thesis by auto
  qed
  show ?case
  proof (cases "n < 10")
    case True
    then show ?thesis by (subst (1 2) decimal.simps) (simp add: digit [THEN not_sym])
  next
    case False
    with 1 have "decimal (n div 10) \<noteq> [] \<and> CHR ''.'' \<notin> set (decimal (n div 10))" by simp
    moreover have "CHR ''.'' \<noteq> ''0123456789'' ! (n mod 10)" by (rule digit [THEN not_sym]) simp
    ultimately show ?thesis using False by (subst (1 2) decimal.simps) simp
  qed
qed

lemma fixed_point_shape:
  "CHR ''.'' \<in> set (fixed_point x) \<and> fixed_point x \<noteq> [] \<and> hd (fixed_point x) \<noteq> CHR ''.''"
proof -
  have "hd (decimal n @ xs) \<noteq> CHR ''.''" for n xs
    using decimal_chars [of n] by (cases "decimal n") auto
  then show ?thesis
    by (simp add: fixed_point_def Let_def)
qed

lemma ostream_fixed_finite:
  "isfinite d \<Longrightarrow>
   CHR ''.'' \<in> set (ostream_fixed d) \<and> ostream_fixed d \<noteq> [] \<and> hd (ostream_fixed d) \<noteq> CHR ''.''"
  using fixed_point_shape by (cases d) simp_all

lemma ostream_fixed_not_finite:
  "\<not> isfinite d \<Longrightarrow> CHR ''.'' \<notin> set (ostream_fixed d) \<and> ostream_fixed d \<noteq> []"
  by (cases d) simp_all

lemma dropWhile_rev_point:
  assumes "CHR ''.'' \<in> set copy"
  shows "dropWhile (\<lambda>c. c = CHR ''0'') (rev copy) \<noteq> []"
proof
  assume "dropWhile (\<lambda>c. c = CHR ''0'') (rev copy) = []"
  then have "\<forall>c \<in> set copy. c = CHR ''0''"
    by (simp add: dropWhile_eq_Nil_conv)
  from this assms have "CHR ''.'' = CHR ''0''" by (rule bspec)
  then show False by simp
qed

lemma last_take_nth: "0 < n \<Longrightarrow> n \<le> length xs \<Longrightarrow> last (take n xs) = xs ! (n - 1)"
proof -
  assume n: "0 < n" "n \<le> length xs"
  then have "take n xs \<noteq> []" by (cases xs) auto
  then have "last (take n xs) = take n xs ! (length (take n xs) - 1)"
    by (rule last_conv_nth)
  also have "length (take n xs) = n" using n by simp
  also have "take n xs ! (n - 1) = xs ! (n - 1)" using n by simp
  finally show ?thesis .
qed

lemma hd_take_pos: "0 < n \<Longrightarrow> hd (take n xs) = hd xs"
  by (cases xs; cases n) auto

lemma butlast_take_le: "n \<le> length xs \<Longrightarrow> butlast (take n xs) = take (n - 1) xs"
  by (simp add: butlast_take)

lemma trim_by_take:
  assumes n_pos: "0 < n" and n_le: "n \<le> length copy" and first: "hd copy \<noteq> CHR ''.''"
  shows "(let len2 = (if copy ! (n - 1) = CHR ''.'' then n - 1 else n)
          in if len2 = 0 then Inr (space @ ''0'') else Inr (space @ take len2 copy))
         = (Inr (space @ (let s = take n copy
                          in if s \<noteq> [] \<and> last s = CHR ''.'' then butlast s else s))
              :: PdfErrorCode + string)
         \<and> (let s = take n copy
             in if s \<noteq> [] \<and> last s = CHR ''.'' then butlast s else s) \<noteq> []"
proof -
  have ne: "take n copy \<noteq> []" using n_pos n_le by (cases copy) auto
  have last_s: "last (take n copy) = copy ! (n - 1)"
    using n_pos n_le by (rule last_take_nth)
  have butlast_s: "butlast (take n copy) = take (n - 1) copy"
    using n_le by (rule butlast_take_le)
  show ?thesis
  proof (cases "copy ! (n - 1) = CHR ''.''")
    case True
    have "n - 1 \<noteq> 0"
    proof
      assume "n - 1 = 0"
      with n_pos have "n = 1" by simp
      with True have "copy ! 0 = CHR ''.''" by simp
      moreover from n_pos n_le have "copy \<noteq> []" by auto
      ultimately have "hd copy = CHR ''.''" by (simp add: hd_conv_nth)
      with first show False by simp
    qed
    moreover from this n_le have "take (n - 1) copy \<noteq> []" by (cases copy) auto
    ultimately show ?thesis
      using True ne last_s butlast_s by (simp add: Let_def)
  next
    case False
    then show ?thesis
      using ne last_s n_pos by (simp add: Let_def)
  qed
qed

lemma Write_Real_compact_general:
  assumes point: "CHR ''.'' \<in> set copy" and first: "hd copy \<noteq> CHR ''.''"
  shows "(case strip_trailing_zeros copy (length copy) of
            None \<Rightarrow> Inl UndefinedBehaviour
          | Some len1 \<Rightarrow>
              (let len2 = (if copy ! (len1 - 1) = CHR ''.'' then len1 - 1 else len1)
               in if len2 = 0 then Inr (space @ ''0'')
                  else Inr (space @ take len2 copy)))
         = (Inr (space @ drop_trailing_zeros_and_point copy) :: PdfErrorCode + string)
         \<and> drop_trailing_zeros_and_point copy \<noteq> []"
proof -
  define n where "n = length (dropWhile (\<lambda>c. c = CHR ''0'') (rev copy))"
  from point obtain i where "i < length copy" "copy ! i = CHR ''.''"
    by (auto simp: in_set_conv_nth)
  then have ex: "\<exists>i<length copy. copy ! i \<noteq> CHR ''0''" by auto
  have strip: "strip_trailing_zeros copy (length copy) = Some n"
    unfolding n_def using strip_trailing_zeros_eq [OF le_refl ex] by simp
  have s_take: "rev (dropWhile (\<lambda>c. c = CHR ''0'') (rev copy)) = take n copy"
    unfolding n_def by (rule rev_dropWhile_rev_take)
  have n_pos: "0 < n"
    unfolding n_def using dropWhile_rev_point [OF point] by blast
  have n_le: "n \<le> length copy"
    unfolding n_def using length_dropWhile_le [of "\<lambda>c. c = CHR ''0''" "rev copy"]
    by (simp only: length_rev)
  have trim: "drop_trailing_zeros_and_point copy
      = (let s = take n copy in if s \<noteq> [] \<and> last s = CHR ''.'' then butlast s else s)"
    unfolding drop_trailing_zeros_and_point_def s_take ..
  show ?thesis
    unfolding strip option.case trim
    using n_pos n_le first by (rule trim_by_take)
qed

lemma Write_Real_not_loaded:
  "\<not> m_bDelayedLoadDone v \<Longrightarrow> PdfVariant_Write w v mode = Inl InternalLogic"
  by (simp add: PdfVariant_Write_def DelayedLoad_def)

lemma Write_Real_compact_finite:
  "m_bDelayedLoadDone v \<Longrightarrow> m_Data v = VReal d \<Longrightarrow> ePdfWriteMode_Compact mode \<Longrightarrow> isfinite d \<Longrightarrow>
   PdfVariant_Write w v mode = Inr (CHR '' '' # drop_trailing_zeros_and_point (ostream_fixed d))"
  using ostream_fixed_finite [of d]
    Write_Real_compact_general [of "ostream_fixed d" "[CHR '' '']"]
  by (simp add: PdfVariant_Write_def DelayedLoad_def Let_def)

lemma Write_Real_compact_not_finite:
  "m_bDelayedLoadDone v \<Longrightarrow> m_Data v = VReal d \<Longrightarrow> ePdfWriteMode_Compact mode \<Longrightarrow> \<not> isfinite d \<Longrightarrow>
   PdfVariant_Write w v mode = Inr (CHR '' '' # ostream_fixed d)"
  using ostream_fixed_not_finite [of d]
  by (simp add: PdfVariant_Write_def DelayedLoad_def Let_def)

lemma Real_token_not_empty:
  "drop_trailing_zeros_and_point (ostream_fixed d) \<noteq> [] \<and> ostream_fixed d \<noteq> []"
proof (cases "isfinite d")
  case True
  then show ?thesis
    using ostream_fixed_finite [of d]
      Write_Real_compact_general [of "ostream_fixed d" "[CHR '' '']"]
    by simp
next
  case False
  then show ?thesis
    by (cases d) (simp_all add: drop_trailing_zeros_and_point_def)
qed

text \<open>
  C7, amended: a Real variant written in compact mode emits one space, written
  whatever came before, and then the rendering of its double by the stream, trimmed
  only when it holds a point.  A finite double, negative zero included, renders with a
  point and six decimals, and is written with the zeros at its end dropped and a point
  left at the end dropped; an infinity or a NaN renders as a word with no point and is
  written whole.  What follows the space is never empty.  A variant that is not loaded
  raises \<open>InternalLogic\<close> instead.  The Reals 1.5, 1.0, 0.0 and -0.0 emit \<open>" 1.5"\<close>,
  \<open>" 1"\<close>, \<open>" 0"\<close> and \<open>" -0"\<close>; an infinity emits \<open>" inf"\<close> or \<open>" -inf"\<close>, a NaN \<open>" nan"\<close>
  or \<open>" -nan"\<close>.
\<close>

theorem C7_Write_Real_compact:
  "(m_Data v = VReal d \<and> ePdfWriteMode_Compact mode
      \<longrightarrow> PdfVariant_Write w v mode
            = (if \<not> m_bDelayedLoadDone v then Inl InternalLogic
               else if isfinite d
               then Inr (CHR '' '' # drop_trailing_zeros_and_point (ostream_fixed d))
               else Inr (CHR '' '' # ostream_fixed d))
          \<and> drop_trailing_zeros_and_point (ostream_fixed d) \<noteq> []
          \<and> ostream_fixed d \<noteq> [])
   \<and> PdfVariant_Write w (PdfVariant (VReal (Finite (3 / 2))) False False True) compact_mode = Inr '' 1.5''
   \<and> PdfVariant_Write w (PdfVariant (VReal (Finite 1)) False False True) compact_mode = Inr '' 1''
   \<and> PdfVariant_Write w (PdfVariant (VReal (Finite 0)) False False True) compact_mode = Inr '' 0''
   \<and> PdfVariant_Write w (PdfVariant (VReal NegativeZero) False False True) compact_mode = Inr '' -0''
   \<and> PdfVariant_Write w (PdfVariant (VReal (Infinity False)) False False True) compact_mode = Inr '' inf''
   \<and> PdfVariant_Write w (PdfVariant (VReal (Infinity True)) False False True) compact_mode = Inr '' -inf''
   \<and> PdfVariant_Write w (PdfVariant (VReal (NaN False)) False False True) compact_mode = Inr '' nan''
   \<and> PdfVariant_Write w (PdfVariant (VReal (NaN True)) False False True) compact_mode = Inr '' -nan''"
proof -
  have general: "PdfVariant_Write w v mode
            = (if \<not> m_bDelayedLoadDone v then Inl InternalLogic
               else if isfinite d
               then Inr (CHR '' '' # drop_trailing_zeros_and_point (ostream_fixed d))
               else Inr (CHR '' '' # ostream_fixed d))"
    if "m_Data v = VReal d" "ePdfWriteMode_Compact mode"
    using that Write_Real_not_loaded [of v w mode] Write_Real_compact_finite [of v d mode w]
      Write_Real_compact_not_finite [of v d mode w]
    by simp
  have trim: "drop_trailing_zeros_and_point ''-0.000000'' = ''-0''"
    by (simp add: drop_trailing_zeros_and_point_def)
  have examples:
    "PdfVariant_Write w (PdfVariant (VReal (Finite (3 / 2))) False False True) compact_mode = Inr '' 1.5''"
    "PdfVariant_Write w (PdfVariant (VReal (Finite 1)) False False True) compact_mode = Inr '' 1''"
    "PdfVariant_Write w (PdfVariant (VReal (Finite 0)) False False True) compact_mode = Inr '' 0''"
    by (simp_all add: PdfVariant_Write_def DelayedLoad_def compact_mode_def ostream_fixed_examples
          del: ostream_fixed.simps)
  have zero:
    "PdfVariant_Write w (PdfVariant (VReal NegativeZero) False False True) compact_mode = Inr '' -0''"
    using Write_Real_compact_finite
      [of "PdfVariant (VReal NegativeZero) False False True" NegativeZero compact_mode w] trim
    by (simp add: compact_mode_def)
  have words:
    "PdfVariant_Write w (PdfVariant (VReal (Infinity False)) False False True) compact_mode = Inr '' inf''"
    "PdfVariant_Write w (PdfVariant (VReal (Infinity True)) False False True) compact_mode = Inr '' -inf''"
    "PdfVariant_Write w (PdfVariant (VReal (NaN False)) False False True) compact_mode = Inr '' nan''"
    "PdfVariant_Write w (PdfVariant (VReal (NaN True)) False False True) compact_mode = Inr '' -nan''"
    by (simp_all add: PdfVariant_Write_def DelayedLoad_def compact_mode_def)
  from general Real_token_not_empty [of d] examples zero words show ?thesis by blast
qed

theorem C7_Write_Real_compact_witness:
  "PdfVariant_Write no_pData_Write (PdfVariant (VReal (Finite (- (1 / 4)))) True False True) compact_mode
     = Inr (CHR '' '' # drop_trailing_zeros_and_point ''-0.250000'')
   \<and> drop_trailing_zeros_and_point ''-0.250000'' = ''-0.25''
   \<and> PdfVariant_Write no_pData_Write (PdfVariant (VReal (Infinity True)) True False True) compact_mode
     = Inr '' -inf''
   \<and> PdfVariant_Write no_pData_Write (PdfVariant (VReal (Finite 1)) True False False) compact_mode
     = Inl InternalLogic"
proof -
  have "drop_trailing_zeros_and_point ''-0.250000'' = ''-0.25''"
    by (simp add: drop_trailing_zeros_and_point_def)
  then show ?thesis
    using C7_Write_Real_compact
      [of "PdfVariant (VReal (Finite (- (1 / 4)))) True False True" "Finite (- (1 / 4))"
        compact_mode no_pData_Write]
      C7_Write_Real_compact
      [of "PdfVariant (VReal (Infinity True)) True False True" "Infinity True"
        compact_mode no_pData_Write]
      C7_Write_Real_compact
      [of "PdfVariant (VReal (Finite 1)) True False False" "Finite 1"
        compact_mode no_pData_Write]
    by (simp add: ostream_fixed_examples(4) compact_mode_def del: ostream_fixed.simps(1))
qed

section \<open>Maps as sorted lists\<close>

lemma std_map_find_None: "std_map_find m k = None \<longleftrightarrow> k \<notin> fst ` set m"
  by (induction m) auto

lemma std_map_find_Some_mem: "std_map_find m k = Some v \<Longrightarrow> (k, v) \<in> set m"
  by (induction m) (auto split: if_splits)

lemma std_map_find_distinct:
  "distinct (map fst m) \<Longrightarrow> (k, v) \<in> set m \<Longrightarrow> std_map_find m k = Some v"
  by (induction m) (auto simp: rev_image_eqI)

lemma set_std_map_insert: "set (std_map_insert k v m) = insert (k, v) (set m)"
  by (induction m) auto

lemma sorted_std_map_insert:
  "sorted_wrt (<) (map fst m) \<Longrightarrow> k \<notin> fst ` set m
   \<Longrightarrow> sorted_wrt (<) (map fst (std_map_insert k v m))"
  by (induction m) (auto simp: set_std_map_insert)

lemma length_std_map_insert: "length (std_map_insert k v m) = Suc (length m)"
  by (induction m) auto

lemma sorted_wrt_less_distinct: "sorted_wrt (<) (xs :: 'a::linorder list) \<Longrightarrow> distinct xs"
  by (induction xs) auto

section \<open>The component walk\<close>

lemma component_gids_mono:
  "component_gids fuel dev adv offset = Some gids
   \<Longrightarrow> component_gids (fuel + n) dev adv offset = Some gids"
proof (induction fuel arbitrary: offset gids)
  case 0
  then show ?case by simp
next
  case (Suc fuel)
  then show ?case
    by (auto split: sum.splits option.splits)
qed

lemma component_gids_unique:
  assumes "component_gids fuel dev adv offset = Some gids"
    and "component_gids fuel' dev adv offset = Some gids'"
  shows "gids = gids'"
proof -
  from assms(1) have "component_gids (fuel + fuel') dev adv offset = Some gids"
    by (rule component_gids_mono)
  moreover from assms(2) have "component_gids (fuel' + fuel) dev adv offset = Some gids'"
    by (rule component_gids_mono)
  ultimately show ?thesis by (simp add: add.commute)
qed


section \<open>The closure walk: \<open>LoadGID\<close> and \<open>LoadCompound\<close>\<close>

lemma component_of_simple:
  "ReadGlyphData dev isLong ctx g = Inr d \<Longrightarrow> \<not> IsCompound d
   \<Longrightarrow> component_of dev isLong ctx `` {g} = {}"
  by (auto simp: component_of_def)

lemma component_of_compound:
  assumes "ReadGlyphData dev isLong ctx g = Inr d" and "IsCompound d"
    and "component_gids fuel dev (GlyphAdvOffset d) 0 = Some gids"
  shows "component_of dev isLong ctx `` {g} = set gids"
proof
  show "component_of dev isLong ctx `` {g} \<subseteq> set gids"
  proof
    fix c
    assume "c \<in> component_of dev isLong ctx `` {g}"
    then obtain d' fuel' gids' where
      "ReadGlyphData dev isLong ctx g = Inr d'"
      "component_gids fuel' dev (GlyphAdvOffset d') 0 = Some gids'" "c \<in> set gids'"
      by (auto simp: component_of_def)
    with assms(1) have "component_gids fuel' dev (GlyphAdvOffset d) 0 = Some gids'" by simp
    from component_gids_unique [OF assms(3) this] \<open>c \<in> set gids'\<close> show "c \<in> set gids" by simp
  qed
  show "set gids \<subseteq> component_of dev isLong ctx `` {g}"
    using assms by (auto simp: component_of_def)
qed

lemma load_post_refl:
  "glyph_map_ok (m_device s) (m_isLongLoca s) ctx (m_glyphDatas s) \<Longrightarrow> load_post ctx s s"
  by (simp add: load_post_def)

lemma load_post_same:
  assumes "load_post ctx s s'"
  shows "m_device s' = m_device s" "m_isLongLoca s' = m_isLongLoca s"
    "m_orderedGIDs s' = m_orderedGIDs s" "m_glyphCount s' = m_glyphCount s"
    "m_tables s' = m_tables s" "m_HMetricsCount s' = m_HMetricsCount s"
proof -
  from assms have eq: "s' = s\<lparr>m_glyphDatas := m_glyphDatas s'\<rparr>" by (simp add: load_post_def)
  show "m_device s' = m_device s" by (subst eq) simp
  show "m_isLongLoca s' = m_isLongLoca s" by (subst eq) simp
  show "m_orderedGIDs s' = m_orderedGIDs s" by (subst eq) simp
  show "m_glyphCount s' = m_glyphCount s" by (subst eq) simp
  show "m_tables s' = m_tables s" by (subst eq) simp
  show "m_HMetricsCount s' = m_HMetricsCount s" by (subst eq) simp
qed

lemma load_post_trans:
  assumes 1: "load_post ctx s s1" and 2: "load_post ctx s1 s2"
  shows "load_post ctx s s2"
proof -
  note same = load_post_same [OF 1]
  from 1 have e1: "s1 = s\<lparr>m_glyphDatas := m_glyphDatas s1\<rparr>" by (simp add: load_post_def)
  from 2 have e2: "s2 = s1\<lparr>m_glyphDatas := m_glyphDatas s2\<rparr>" by (simp add: load_post_def)
  have eq: "s2 = s\<lparr>m_glyphDatas := m_glyphDatas s2\<rparr>"
    by (subst e2, subst e1) simp
  from 2 have ok: "glyph_map_ok (m_device s) (m_isLongLoca s) ctx (m_glyphDatas s2)"
    by (simp add: load_post_def same)
  from 1 2 have sub: "glyph_keys s \<subseteq> glyph_keys s1" "glyph_keys s1 \<subseteq> glyph_keys s2"
    by (simp_all add: load_post_def)
  have closed: "component_of (m_device s) (m_isLongLoca s) ctx `` {k} \<subseteq> glyph_keys s2"
    if "k \<in> glyph_keys s2 - glyph_keys s" for k
  proof (cases "k \<in> glyph_keys s1")
    case True
    with that 1 have "component_of (m_device s) (m_isLongLoca s) ctx `` {k} \<subseteq> glyph_keys s1"
      by (simp add: load_post_def)
    with sub show ?thesis by blast
  next
    case False
    with that 2 show ?thesis by (simp add: load_post_def same)
  qed
  from eq ok sub closed show ?thesis
    unfolding load_post_def by blast
qed

lemma load_post_insert:
  assumes ok: "glyph_map_ok (m_device s) (m_isLongLoca s) ctx (m_glyphDatas s)"
    and new: "std_map_find (m_glyphDatas s) gid = None"
    and rd: "ReadGlyphData (m_device s) (m_isLongLoca s) ctx gid = Inr d"
  defines "s0 \<equiv> s\<lparr>m_glyphDatas := std_map_insert gid d (m_glyphDatas s)\<rparr>"
  shows "glyph_map_ok (m_device s0) (m_isLongLoca s0) ctx (m_glyphDatas s0)"
    and "glyph_keys s0 = insert gid (glyph_keys s)"
    and "s0 = s\<lparr>m_glyphDatas := m_glyphDatas s0\<rparr>"
proof -
  from new have notin: "gid \<notin> fst ` set (m_glyphDatas s)" by (simp add: std_map_find_None)
  show "glyph_map_ok (m_device s0) (m_isLongLoca s0) ctx (m_glyphDatas s0)"
    using ok rd sorted_std_map_insert [OF _ notin, of d]
    by (simp add: glyph_map_ok_def s0_def list_all_iff set_std_map_insert)
  show "glyph_keys s0 = insert gid (glyph_keys s)"
    by (simp add: glyph_keys_def s0_def set_std_map_insert)
  show "s0 = s\<lparr>m_glyphDatas := m_glyphDatas s0\<rparr>"
    by (simp add: s0_def)
qed


lemma LoadGID_LoadCompound_post:
  "(\<forall>s gid s'. LoadGID fuel ctx s gid = Some (Inr s')
       \<longrightarrow> glyph_map_ok (m_device s) (m_isLongLoca s) ctx (m_glyphDatas s)
       \<longrightarrow> load_post ctx s s' \<and> gid \<in> glyph_keys s'
           \<and> glyph_keys s' \<subseteq> glyph_keys s
                \<union> (component_of (m_device s) (m_isLongLoca s) ctx)\<^sup>* `` {gid})
   \<and> (\<forall>s data offset s'. LoadCompound fuel ctx s data offset = Some (Inr s')
       \<longrightarrow> glyph_map_ok (m_device s) (m_isLongLoca s) ctx (m_glyphDatas s)
       \<longrightarrow> load_post ctx s s'
           \<and> (\<exists>gids. component_gids fuel (m_device s) (GlyphAdvOffset data) offset = Some gids
                \<and> set gids \<subseteq> glyph_keys s'
                \<and> glyph_keys s' \<subseteq> glyph_keys s
                     \<union> (component_of (m_device s) (m_isLongLoca s) ctx)\<^sup>* `` set gids))"
proof (induction fuel)
  case 0
  show ?case by simp
next
  case (Suc fuel)
  note IH1 = Suc.IH [THEN conjunct1, rule_format]
  note IH2 = Suc.IH [THEN conjunct2, rule_format]
  show ?case
  proof (intro conjI allI impI)
    fix s gid s'
    assume run: "LoadGID (Suc fuel) ctx s gid = Some (Inr s')"
      and ok: "glyph_map_ok (m_device s) (m_isLongLoca s) ctx (m_glyphDatas s)"
    let ?R = "component_of (m_device s) (m_isLongLoca s) ctx"
    have goal: "load_post ctx s s' \<and> gid \<in> glyph_keys s'
           \<and> glyph_keys s' \<subseteq> glyph_keys s \<union> ?R\<^sup>* `` {gid}"
    proof (cases "std_map_find (m_glyphDatas s) gid = None")
      case False
      with run have "s' = s" by (simp split: if_splits)
      moreover from False have "gid \<in> glyph_keys s"
        by (simp add: std_map_find_None glyph_keys_def)
      ultimately show ?thesis using ok by (simp add: load_post_refl)
    next
      case new: True
      from run new obtain d where rd: "ReadGlyphData (m_device s) (m_isLongLoca s) ctx gid = Inr d"
        by (auto split: if_splits sum.splits)
      define s0 where "s0 = s\<lparr>m_glyphDatas := std_map_insert gid d (m_glyphDatas s)\<rparr>"
      note ins = load_post_insert [OF ok new rd, folded s0_def]
      have dev0: "m_device s0 = m_device s" "m_isLongLoca s0 = m_isLongLoca s"
        by (simp_all add: s0_def)
      show ?thesis
      proof (cases "IsCompound d")
        case False
        with run new rd have s': "s' = s0"
          by (simp add: s0_def Let_def split: if_splits)
        have "?R `` {gid} = {}" using rd False by (rule component_of_simple)
        then have "load_post ctx s s0"
          unfolding load_post_def using ins by (auto simp: dev0)
        then show ?thesis using ins(2) s' by auto
      next
        case True
        with run new rd have run0: "LoadCompound fuel ctx s0 d 0 = Some (Inr s')"
          by (simp add: s0_def Let_def split: if_splits)
        from IH2 [OF run0 ins(1)] obtain gids where
          post0: "load_post ctx s0 s'"
          and gids: "component_gids fuel (m_device s) (GlyphAdvOffset d) 0 = Some gids"
          and sub: "set gids \<subseteq> glyph_keys s'"
          and reach: "glyph_keys s' \<subseteq> glyph_keys s0 \<union> ?R\<^sup>* `` set gids"
          by (auto simp: dev0)
        have succ: "?R `` {gid} = set gids"
          using rd True gids by (rule component_of_compound)
        note same0 = load_post_same [OF post0]
        from post0 have e0: "s' = s0\<lparr>m_glyphDatas := m_glyphDatas s'\<rparr>"
          and ok': "glyph_map_ok (m_device s) (m_isLongLoca s) ctx (m_glyphDatas s')"
          and keys0: "glyph_keys s0 \<subseteq> glyph_keys s'"
          and closed0: "\<And>k. k \<in> glyph_keys s' - glyph_keys s0 \<Longrightarrow> ?R `` {k} \<subseteq> glyph_keys s'"
          by (simp_all add: load_post_def dev0)
        have post: "load_post ctx s s'"
          unfolding load_post_def
        proof (intro conjI ballI)
          show "s' = s\<lparr>m_glyphDatas := m_glyphDatas s'\<rparr>"
            by (subst e0, subst ins(3)) simp
          show "glyph_map_ok (m_device s) (m_isLongLoca s) ctx (m_glyphDatas s')" by (rule ok')
          show "glyph_keys s \<subseteq> glyph_keys s'" using ins(2) keys0 by auto
        next
          fix k assume k: "k \<in> glyph_keys s' - glyph_keys s"
          show "?R `` {k} \<subseteq> glyph_keys s'"
          proof (cases "k = gid")
            case True
            with succ sub show ?thesis by simp
          next
            case False
            with k ins(2) have "k \<in> glyph_keys s' - glyph_keys s0" by auto
            then show ?thesis by (rule closed0)
          qed
        qed
        have "?R\<^sup>* `` set gids \<subseteq> ?R\<^sup>* `` {gid}"
        proof
          fix c assume "c \<in> ?R\<^sup>* `` set gids"
          then obtain g where "g \<in> set gids" "(g, c) \<in> ?R\<^sup>*" by auto
          moreover from \<open>g \<in> set gids\<close> succ have "(gid, g) \<in> ?R" by auto
          ultimately have "(gid, c) \<in> ?R\<^sup>*" by (meson converse_rtrancl_into_rtrancl)
          then show "c \<in> ?R\<^sup>* `` {gid}" by auto
        qed
        with reach ins(2) have "glyph_keys s' \<subseteq> glyph_keys s \<union> ?R\<^sup>* `` {gid}" by auto
        moreover from keys0 ins(2) have "gid \<in> glyph_keys s'" by auto
        ultimately show ?thesis using post by blast
      qed
    qed
    show "load_post ctx s s'" using goal by blast
    show "gid \<in> glyph_keys s'" using goal by blast
    show "glyph_keys s' \<subseteq> glyph_keys s \<union> ?R\<^sup>* `` {gid}" using goal by blast
  next
    fix s data offset s'
    assume run: "LoadCompound (Suc fuel) ctx s data offset = Some (Inr s')"
      and ok: "glyph_map_ok (m_device s) (m_isLongLoca s) ctx (m_glyphDatas s)"
    let ?R = "component_of (m_device s) (m_isLongLoca s) ctx"
    from run obtain cmpData where
      rd: "ReadGlyphCompoundData (m_device s) (GlyphAdvOffset data + offset) = Inr cmpData"
      by (auto split: sum.splits)
    from run rd obtain s1 where
      run1: "LoadGID fuel ctx s (GlyphIndex cmpData) = Some (Inr s1)"
      by (auto split: option.splits sum.splits)
    from IH1 [OF run1 ok] have
      post1: "load_post ctx s s1" and in1: "GlyphIndex cmpData \<in> glyph_keys s1"
      and reach1: "glyph_keys s1 \<subseteq> glyph_keys s \<union> ?R\<^sup>* `` {GlyphIndex cmpData}"
      by blast+
    note same1 = load_post_same [OF post1]
    have goal: "load_post ctx s s'
      \<and> (\<exists>gids. component_gids (Suc fuel) (m_device s) (GlyphAdvOffset data) offset = Some gids
                \<and> set gids \<subseteq> glyph_keys s'
                \<and> glyph_keys s' \<subseteq> glyph_keys s \<union> ?R\<^sup>* `` set gids)"
    proof (cases "TryAdvanceCompoundOffset offset (Flags cmpData)")
      case None
      with run rd run1 have "s' = s1" by simp
      moreover from None rd
      have "component_gids (Suc fuel) (m_device s) (GlyphAdvOffset data) offset
              = Some [GlyphIndex cmpData]" by simp
      ultimately show ?thesis using post1 in1 reach1 by simp
    next
      case (Some offset')
      with run rd run1 have run2: "LoadCompound fuel ctx s1 data offset' = Some (Inr s')" by simp
      from post1 have ok1: "glyph_map_ok (m_device s1) (m_isLongLoca s1) ctx (m_glyphDatas s1)"
        by (simp add: load_post_def same1)
      from IH2 [OF run2 ok1] obtain gids where
        post2: "load_post ctx s1 s'"
        and gids: "component_gids fuel (m_device s) (GlyphAdvOffset data) offset' = Some gids"
        and sub: "set gids \<subseteq> glyph_keys s'"
        and reach2: "glyph_keys s' \<subseteq> glyph_keys s1 \<union> ?R\<^sup>* `` set gids"
        by (auto simp: same1)
      from post1 post2 have post: "load_post ctx s s'" by (rule load_post_trans)
      from post2 have "glyph_keys s1 \<subseteq> glyph_keys s'" by (simp add: load_post_def)
      with in1 sub have sub': "set (GlyphIndex cmpData # gids) \<subseteq> glyph_keys s'" by auto
      from Some rd gids
      have cg: "component_gids (Suc fuel) (m_device s) (GlyphAdvOffset data) offset
              = Some (GlyphIndex cmpData # gids)" by simp
      from reach1 reach2
      have "glyph_keys s' \<subseteq> glyph_keys s \<union> ?R\<^sup>* `` set (GlyphIndex cmpData # gids)"
        by auto
      with post sub' cg show ?thesis by blast
    qed
    show "load_post ctx s s'" using goal by blast
    show "\<exists>gids. component_gids (Suc fuel) (m_device s) (GlyphAdvOffset data) offset = Some gids
                \<and> set gids \<subseteq> glyph_keys s'
                \<and> glyph_keys s' \<subseteq> glyph_keys s
                     \<union> (component_of (m_device s) (m_isLongLoca s) ctx)\<^sup>* `` set gids"
      using goal by blast
  qed
qed

lemmas LoadGID_post = LoadGID_LoadCompound_post [THEN conjunct1, rule_format]

lemma LoadGlyphs_load_post:
  assumes "LoadGlyphs_load fuel ctx s gidList = Some (Inr s')"
    and "glyph_map_ok (m_device s) (m_isLongLoca s) ctx (m_glyphDatas s)"
  shows "load_post ctx s s' \<and> set gidList \<subseteq> glyph_keys s'
         \<and> glyph_keys s' \<subseteq> glyph_keys s
              \<union> (component_of (m_device s) (m_isLongLoca s) ctx)\<^sup>* `` set gidList"
  using assms
proof (induction gidList arbitrary: s)
  case Nil
  then show ?case by (simp add: load_post_refl)
next
  case (Cons gid gidList)
  let ?R = "component_of (m_device s) (m_isLongLoca s) ctx"
  from Cons.prems(1) obtain s1 where
    run1: "LoadGID fuel ctx s gid = Some (Inr s1)"
    and run2: "LoadGlyphs_load fuel ctx s1 gidList = Some (Inr s')"
    by (auto split: option.splits sum.splits)
  from LoadGID_post [OF run1 Cons.prems(2)] have
    post1: "load_post ctx s s1" and in1: "gid \<in> glyph_keys s1"
    and reach1: "glyph_keys s1 \<subseteq> glyph_keys s \<union> ?R\<^sup>* `` {gid}"
    by blast+
  note same1 = load_post_same [OF post1]
  from post1 have ok1: "glyph_map_ok (m_device s1) (m_isLongLoca s1) ctx (m_glyphDatas s1)"
    by (simp add: load_post_def same1)
  from Cons.IH [OF run2 ok1] have
    post2: "load_post ctx s1 s'" and sub: "set gidList \<subseteq> glyph_keys s'"
    and reach2: "glyph_keys s' \<subseteq> glyph_keys s1 \<union> ?R\<^sup>* `` set gidList"
    by (simp_all add: same1)
  from post1 post2 have "load_post ctx s s'" by (rule load_post_trans)
  moreover from post2 have "glyph_keys s1 \<subseteq> glyph_keys s'" by (simp add: load_post_def)
  with in1 sub have "set (gid # gidList) \<subseteq> glyph_keys s'" by auto
  moreover from reach1 reach2
  have "glyph_keys s' \<subseteq> glyph_keys s \<union> ?R\<^sup>* `` set (gid # gidList)" by auto
  ultimately show ?case by blast
qed

text \<open>After the loads from an empty map, the keys are the closure of the roots.\<close>

lemma closure_walk_keys:
  assumes run1: "LoadGID fuel ctx s 0 = Some (Inr s1)"
    and run2: "LoadGlyphs_load fuel ctx s1 gidList = Some (Inr s2)"
    and empty: "m_glyphDatas s = []"
  shows "load_post ctx s s2"
    and "glyph_keys s2 = glyph_closure (m_device s) (m_isLongLoca s) ctx (set (0 # gidList))"
proof -
  let ?R = "component_of (m_device s) (m_isLongLoca s) ctx"
  have ok: "glyph_map_ok (m_device s) (m_isLongLoca s) ctx (m_glyphDatas s)"
    by (simp add: empty glyph_map_ok_def)
  have keys0: "glyph_keys s = {}" by (simp add: glyph_keys_def empty)
  from LoadGID_post [OF run1 ok] have
    post1: "load_post ctx s s1" and in1: "0 \<in> glyph_keys s1"
    and reach1: "glyph_keys s1 \<subseteq> ?R\<^sup>* `` {0}"
    by (simp_all add: keys0)
  note same1 = load_post_same [OF post1]
  from post1 have ok1: "glyph_map_ok (m_device s1) (m_isLongLoca s1) ctx (m_glyphDatas s1)"
    by (simp add: load_post_def same1)
  from LoadGlyphs_load_post [OF run2 ok1] have
    post2: "load_post ctx s1 s2" and sub: "set gidList \<subseteq> glyph_keys s2"
    and reach2: "glyph_keys s2 \<subseteq> glyph_keys s1 \<union> ?R\<^sup>* `` set gidList"
    by (simp_all add: same1)
  from post1 post2 show post: "load_post ctx s s2" by (rule load_post_trans)
  from post2 have "glyph_keys s1 \<subseteq> glyph_keys s2" by (simp add: load_post_def)
  with in1 sub have roots: "set (0 # gidList) \<subseteq> glyph_keys s2" by auto
  from post have closed: "\<And>k. k \<in> glyph_keys s2 \<Longrightarrow> ?R `` {k} \<subseteq> glyph_keys s2"
    by (simp add: load_post_def keys0)
  have "c \<in> glyph_keys s2" if "(r, c) \<in> ?R\<^sup>*" "r \<in> glyph_keys s2" for r c
    using that
  proof (induction rule: rtrancl_induct)
    case base
    then show ?case .
  next
    case (step y z)
    then have "y \<in> glyph_keys s2" by simp
    from closed [OF this] step.hyps(2) show ?case by auto
  qed
  with roots have "?R\<^sup>* `` set (0 # gidList) \<subseteq> glyph_keys s2" by blast
  moreover from reach1 reach2 have "glyph_keys s2 \<subseteq> ?R\<^sup>* `` set (0 # gidList)" by auto
  ultimately show "glyph_keys s2 = glyph_closure (m_device s) (m_isLongLoca s) ctx (set (0 # gidList))"
    unfolding glyph_closure_def by blast
qed

section \<open>The renumbering pass of \<open>LoadGlyphs\<close>\<close>

lemma keys_glyphIndexMap_insert:
  "fst ` set (glyphIndexMap_insert glyphIndexMap gid) = insert gid (fst ` set glyphIndexMap)"
proof (cases "std_map_find glyphIndexMap gid")
  case None
  then show ?thesis by (simp add: glyphIndexMap_insert_def set_std_map_insert)
next
  case (Some index)
  then have "gid \<in> fst ` set glyphIndexMap"
    using std_map_find_None [of glyphIndexMap gid] by simp
  with Some show ?thesis by (auto simp: glyphIndexMap_insert_def)
qed

lemma LoadGlyphs_index_eq:
  "LoadGlyphs_index gidList (glyphIndexMap, orderedGIDs)
     = (foldl glyphIndexMap_insert glyphIndexMap gidList, orderedGIDs @ gidList)"
  by (induction gidList arbitrary: glyphIndexMap orderedGIDs) auto

lemma keys_foldl_glyphIndexMap_insert:
  "fst ` set (foldl glyphIndexMap_insert glyphIndexMap gidList)
     = fst ` set glyphIndexMap \<union> set gidList"
  by (induction gidList arbitrary: glyphIndexMap) (auto simp: keys_glyphIndexMap_insert)

lemma LoadGlyphs_components_eq:
  "LoadGlyphs_components fuel dev d offset (glyphIndexMap, orderedGIDs)
     = Some (Inr (d', glyphIndexMap', orderedGIDs'))
   \<Longrightarrow> \<exists>gids. component_gids fuel dev (GlyphAdvOffset d) offset = Some gids
         \<and> (glyphIndexMap', orderedGIDs') = foldl renumber_step (glyphIndexMap, orderedGIDs) gids
         \<and> GlyphAdvOffset d' = GlyphAdvOffset d \<and> IsCompound d' = IsCompound d"
proof (induction fuel arbitrary: d offset glyphIndexMap orderedGIDs)
  case 0
  then show ?case by simp
next
  case (Suc fuel)
  from Suc.prems obtain cmpData where
    rd: "ReadGlyphCompoundData dev (GlyphAdvOffset d + offset) = Inr cmpData"
    by (auto simp: Let_def split: sum.splits)
  define acc where "acc = renumber_step (glyphIndexMap, orderedGIDs) (GlyphIndex cmpData)"
  define d1 where "d1 = d\<lparr>CompoundComponents := CompoundComponents d @
      [\<lparr>component_Offset = GlyphAdvOffset d + offset + 2 - GlyphOffset d,
        component_GlyphIndex = glyphIndexMap_second glyphIndexMap (GlyphIndex cmpData)\<rparr>]\<rparr>"
  have d1: "GlyphAdvOffset d1 = GlyphAdvOffset d" "IsCompound d1 = IsCompound d"
    by (simp_all add: d1_def)
  show ?case
  proof (cases "TryAdvanceCompoundOffset offset (Flags cmpData)")
    case None
    with Suc.prems rd have "d' = d1" "(glyphIndexMap', orderedGIDs') = acc"
      by (auto simp: Let_def d1_def acc_def renumber_step_def)
    with None rd d1 show ?thesis by (simp add: acc_def)
  next
    case (Some offset')
    with Suc.prems rd
    have "LoadGlyphs_components fuel dev d1 offset' (fst acc, snd acc)
            = Some (Inr (d', glyphIndexMap', orderedGIDs'))"
      by (cases "std_map_find glyphIndexMap (GlyphIndex cmpData)")
         (simp_all add: Let_def d1_def acc_def renumber_step_def)
    from Suc.IH [OF this] obtain gids where
      "component_gids fuel dev (GlyphAdvOffset d) offset' = Some gids"
      "(glyphIndexMap', orderedGIDs') = foldl renumber_step acc gids"
      "GlyphAdvOffset d' = GlyphAdvOffset d" "IsCompound d' = IsCompound d"
      by (auto simp: d1)
    with Some rd show ?thesis by (simp add: acc_def)
  qed
qed

lemma LoadGlyphs_remap_eq:
  "LoadGlyphs_remap fuel dev glyphDatas (glyphIndexMap, orderedGIDs)
     = Some (Inr (glyphDatas', glyphIndexMap', orderedGIDs'))
   \<Longrightarrow> (glyphIndexMap', orderedGIDs')
         = foldl renumber_step (glyphIndexMap, orderedGIDs)
             (components_in_map_order fuel dev glyphDatas)
       \<and> map fst glyphDatas' = map fst glyphDatas
       \<and> components_in_map_order fuel dev glyphDatas'
           = components_in_map_order fuel dev glyphDatas
       \<and> list_all (\<lambda>pair. IsCompound (snd pair)
             \<longrightarrow> component_gids fuel dev (GlyphAdvOffset (snd pair)) 0 \<noteq> None) glyphDatas"
proof (induction glyphDatas arbitrary: glyphIndexMap orderedGIDs glyphDatas')
  case Nil
  then show ?case by (simp add: components_in_map_order_def)
next
  case (Cons pair rest)
  from Cons.prems obtain d1 im1 ord1 rest' where
    head: "(if \<not> IsCompound (snd pair) then Some (Inr (snd pair, glyphIndexMap, orderedGIDs))
            else LoadGlyphs_components fuel dev (snd pair) 0 (glyphIndexMap, orderedGIDs))
           = Some (Inr (d1, im1, ord1))"
    and tail: "LoadGlyphs_remap fuel dev rest (im1, ord1)
           = Some (Inr (rest', glyphIndexMap', orderedGIDs'))"
    and res: "glyphDatas' = (fst pair, d1) # rest'"
    by (auto split: option.splits sum.splits prod.splits)
  have step: "(im1, ord1) = foldl renumber_step (glyphIndexMap, orderedGIDs)
                 (components_of_entry fuel dev pair)
      \<and> components_of_entry fuel dev (fst pair, d1) = components_of_entry fuel dev pair
      \<and> (IsCompound (snd pair)
            \<longrightarrow> component_gids fuel dev (GlyphAdvOffset (snd pair)) 0 \<noteq> None)"
  proof (cases "IsCompound (snd pair)")
    case False
    with head show ?thesis by (simp add: components_of_entry_def)
  next
    case True
    with head have "LoadGlyphs_components fuel dev (snd pair) 0 (glyphIndexMap, orderedGIDs)
        = Some (Inr (d1, im1, ord1))" by simp
    from LoadGlyphs_components_eq [OF this] True show ?thesis
      by (auto simp: components_of_entry_def)
  qed
  from Cons.IH [OF tail] step res show ?case
    by (simp add: components_in_map_order_def)
qed

lemma first_occurrences_snoc:
  "first_occurrences (xs @ [x])
     = (if x \<in> set xs then first_occurrences xs else first_occurrences xs @ [x])"
  by (simp add: first_occurrences_def)

lemma set_first_occurrences [simp]: "set (first_occurrences xs) = set xs"
  by (simp add: first_occurrences_def)

lemma distinct_first_occurrences [simp]: "distinct (first_occurrences xs)"
  by (simp add: first_occurrences_def)

lemma foldl_renumber_step:
  "foldl renumber_step (glyphIndexMap, orderedGIDs) gids
     = (foldl glyphIndexMap_insert glyphIndexMap gids,
        orderedGIDs @ first_occurrences (filter (\<lambda>g. g \<notin> fst ` set glyphIndexMap) gids))"
proof (induction gids rule: rev_induct)
  case Nil
  show ?case by (simp add: first_occurrences_def)
next
  case (snoc g gids)
  have "std_map_find (foldl glyphIndexMap_insert glyphIndexMap gids) g = None
      \<longleftrightarrow> g \<notin> fst ` set glyphIndexMap \<and> g \<notin> set gids"
    by (simp add: std_map_find_None keys_foldl_glyphIndexMap_insert)
  with snoc show ?case
    by (auto simp: renumber_step_def first_occurrences_snoc)
qed

lemma repeated_occurrences_card:
  "repeated_occurrences seen gidList + card (set seen \<union> set gidList)
     = card (set seen) + length gidList"
proof (induction gidList arbitrary: seen)
  case Nil
  show ?case by simp
next
  case (Cons gid gidList)
  have eq: "set (gid # seen) \<union> set gidList = set seen \<union> set (gid # gidList)" by auto
  show ?case
  proof (cases "gid \<in> set seen")
    case True
    then have "card (set (gid # seen)) = card (set seen)" by (simp add: insert_absorb)
    with Cons [of "gid # seen"] True show ?thesis by (simp add: eq [simplified] insert_absorb)
  next
    case False
    then have "card (set (gid # seen)) = Suc (card (set seen))" by simp
    with Cons [of "gid # seen"] False show ?thesis by (simp add: eq [simplified])
  qed
qed

lemma repeated_occurrences_0:
  "repeated_occurrences seen gidList = 0 \<longleftrightarrow> distinct gidList \<and> set seen \<inter> set gidList = {}"
  by (induction gidList arbitrary: seen) auto

text \<open>The facts about a successful \<open>LoadGlyphs\<close> on a fresh subsetter, gathered.\<close>

lemma LoadGlyphs_facts:
  assumes fresh: "m_glyphDatas s = []" "m_orderedGIDs s = []"
    and run: "LoadGlyphs fuel ctx s gidList = Some (Inr s')"
  defines "comps \<equiv> components_in_map_order fuel (m_device s) (m_glyphDatas s')"
    and "R \<equiv> component_of (m_device s) (m_isLongLoca s) ctx"
  shows "m_orderedGIDs s'
           = 0 # gidList @ first_occurrences (filter (\<lambda>g. g \<notin> set (0 # gidList)) comps)"
    and "sorted_wrt (<) (map fst (m_glyphDatas s'))"
    and "glyph_keys s' = glyph_closure (m_device s) (m_isLongLoca s) ctx (set (0 # gidList))"
    and "set comps = R `` glyph_keys s'"
proof -
  from run obtain s1 s2 glyphDatas' glyphIndexMap' orderedGIDs' where
    run1: "LoadGID fuel ctx s 0 = Some (Inr s1)"
    and run2: "LoadGlyphs_load fuel ctx s1 gidList = Some (Inr s2)"
    and run3: "LoadGlyphs_remap fuel (m_device s2) (m_glyphDatas s2)
                 (LoadGlyphs_index gidList (std_map_insert 0 0 [], m_orderedGIDs s2 @ [0]))
               = Some (Inr (glyphDatas', glyphIndexMap', orderedGIDs'))"
    and s': "s' = s2\<lparr>m_glyphDatas := glyphDatas', m_orderedGIDs := orderedGIDs'\<rparr>"
    by (auto simp: LoadGlyphs_def split: option.splits sum.splits)
  note walk = closure_walk_keys [OF run1 run2 fresh(1)]
  note same = load_post_same [OF walk(1)]
  from walk(1) have ok2: "glyph_map_ok (m_device s) (m_isLongLoca s) ctx (m_glyphDatas s2)"
    by (simp add: load_post_def)
  have index: "LoadGlyphs_index gidList (std_map_insert 0 0 [], m_orderedGIDs s2 @ [0])
      = (foldl glyphIndexMap_insert [(0, 0)] gidList, 0 # gidList)"
    by (simp add: LoadGlyphs_index_eq same fresh)
  from run3 have run3': "LoadGlyphs_remap fuel (m_device s) (m_glyphDatas s2)
      (foldl glyphIndexMap_insert [(0, 0)] gidList, 0 # gidList)
    = Some (Inr (glyphDatas', glyphIndexMap', orderedGIDs'))"
    by (simp only: index same(1))
  note remap = LoadGlyphs_remap_eq [OF run3']
  have gd': "m_glyphDatas s' = glyphDatas'" and ord': "m_orderedGIDs s' = orderedGIDs'"
    by (simp_all add: s')
  have comps: "comps = components_in_map_order fuel (m_device s) (m_glyphDatas s2)"
    using remap by (simp add: comps_def gd')
  have keys_index: "fst ` set (foldl glyphIndexMap_insert [(0, 0)] gidList) = set (0 # gidList)"
    by (simp add: keys_foldl_glyphIndexMap_insert)
  from remap have "orderedGIDs' = snd (foldl renumber_step
      (foldl glyphIndexMap_insert [(0, 0)] gidList, 0 # gidList)
      (components_in_map_order fuel (m_device s) (m_glyphDatas s2)))"
    by (metis snd_conv)
  then show "m_orderedGIDs s'
           = 0 # gidList @ first_occurrences (filter (\<lambda>g. g \<notin> set (0 # gidList)) comps)"
    by (simp only: foldl_renumber_step keys_index snd_conv ord' comps append_Cons)
  from remap have keys': "map fst glyphDatas' = map fst (m_glyphDatas s2)" by simp
  with ok2 show "sorted_wrt (<) (map fst (m_glyphDatas s'))"
    by (simp add: glyph_map_ok_def gd')
  have keys_eq: "glyph_keys s' = glyph_keys s2"
  proof -
    have "set (map fst glyphDatas') = set (map fst (m_glyphDatas s2))" by (simp only: keys')
    then show ?thesis by (simp add: glyph_keys_def gd')
  qed
  with walk(2) show "glyph_keys s' = glyph_closure (m_device s) (m_isLongLoca s) ctx (set (0 # gidList))"
    by simp
  have entry: "set (components_of_entry fuel (m_device s) pair) = R `` {fst pair}"
    if "pair \<in> set (m_glyphDatas s2)" for pair
  proof -
    from that ok2 have rd: "ReadGlyphData (m_device s) (m_isLongLoca s) ctx (fst pair) = Inr (snd pair)"
      by (simp add: glyph_map_ok_def list_all_iff)
    show ?thesis
    proof (cases "IsCompound (snd pair)")
      case False
      with component_of_simple [OF rd False] show ?thesis
        by (simp add: components_of_entry_def R_def)
    next
      case True
      with that remap obtain gids where
        gids: "component_gids fuel (m_device s) (GlyphAdvOffset (snd pair)) 0 = Some gids"
        by (auto simp: list_all_iff)
      from component_of_compound [OF rd True gids] True gids show ?thesis
        by (simp add: components_of_entry_def R_def)
    qed
  qed
  have "set comps = (\<Union>pair \<in> set (m_glyphDatas s2). set (components_of_entry fuel (m_device s) pair))"
    by (simp add: comps components_in_map_order_def)
  also have "\<dots> = (\<Union>pair \<in> set (m_glyphDatas s2). R `` {fst pair})"
    using entry by simp
  also have "\<dots> = R `` glyph_keys s2"
    by (auto simp: glyph_keys_def)
  finally show "set comps = R `` glyph_keys s'" by (simp add: keys_eq)
qed

lemma LoadGlyphs_counts:
  assumes fresh: "m_glyphDatas s = []" "m_orderedGIDs s = []"
    and run: "LoadGlyphs fuel ctx s gidList = Some (Inr s')"
  defines "closure \<equiv> glyph_closure (m_device s) (m_isLongLoca s) ctx (set (0 # gidList))"
  shows "length (m_glyphDatas s') = card closure"
    and "length (m_orderedGIDs s') = card closure + repeated_occurrences [0] gidList"
    and "set (m_orderedGIDs s') = closure"
proof -
  let ?R = "component_of (m_device s) (m_isLongLoca s) ctx"
  let ?comps = "components_in_map_order fuel (m_device s) (m_glyphDatas s')"
  let ?roots = "set (0 # gidList)"
  let ?D = "first_occurrences (filter (\<lambda>g. g \<notin> ?roots) ?comps)"
  note facts = LoadGlyphs_facts [OF fresh run]
  have K: "glyph_keys s' = closure" by (simp add: facts(3) closure_def)
  from facts(2) have "distinct (map fst (m_glyphDatas s'))" by (rule sorted_wrt_less_distinct)
  then have "card (glyph_keys s') = length (m_glyphDatas s')"
    unfolding glyph_keys_def by (metis distinct_card length_map list.set_map)
  with K show len_gd: "length (m_glyphDatas s') = card closure" by simp
  have roots_sub: "?roots \<subseteq> closure"
    unfolding closure_def glyph_closure_def by auto
  have comps_sub: "set ?comps \<subseteq> closure"
  proof -
    have "?R `` closure \<subseteq> closure"
      unfolding closure_def glyph_closure_def by (auto intro: rtrancl_into_rtrancl)
    with facts(4) K show ?thesis by simp
  qed
  have closure_sub: "closure \<subseteq> ?roots \<union> set ?comps"
  proof
    fix c assume "c \<in> closure"
    then obtain r where r: "r \<in> ?roots" "(r, c) \<in> ?R\<^sup>*"
      unfolding closure_def glyph_closure_def by auto
    from r(2) show "c \<in> ?roots \<union> set ?comps"
    proof (cases rule: rtranclE)
      case base
      with r(1) show ?thesis by auto
    next
      case (step y)
      with r(1) have "y \<in> closure" unfolding closure_def glyph_closure_def by auto
      with step(2) have "c \<in> ?R `` glyph_keys s'" using K by auto
      with facts(4) show ?thesis by simp
    qed
  qed
  have setD: "set ?D = closure - ?roots"
    using comps_sub closure_sub by auto
  have fin: "finite closure" using K by (simp add: glyph_keys_def)
  have "length ?D = card (closure - ?roots)"
    using setD distinct_card [of ?D] by simp
  also have "\<dots> = card closure - card ?roots"
    using roots_sub fin by (simp add: card_Diff_subset)
  finally have lenD: "length ?D = card closure - card ?roots" .
  have le: "card ?roots \<le> card closure" using roots_sub fin by (rule card_mono [rotated])
  from repeated_occurrences_card [of "[0]" gidList]
  have rep: "repeated_occurrences [0] gidList + card ?roots = Suc (length gidList)" by simp
  have "length (m_orderedGIDs s') = Suc (length gidList) + length ?D"
    by (simp add: facts(1))
  with lenD le rep show "length (m_orderedGIDs s') = card closure + repeated_occurrences [0] gidList"
    by linarith
  have "set (m_orderedGIDs s') = ?roots \<union> set ?D" by (simp add: facts(1))
  with setD roots_sub show "set (m_orderedGIDs s') = closure" by auto
qed

section \<open>The table writers\<close>

lemma CopyData_length: "CopyData dev offset len = Inr bytes \<Longrightarrow> length bytes = unat len"
  by (auto simp: CopyData_def device_Read_def split: if_splits)

lemma WriteHmtxTable_loop_length:
  "WriteHmtxTable_loop dev tableOffset gids = Inr bytes \<Longrightarrow> length bytes = 4 * length gids"
proof (induction gids arbitrary: bytes)
  case Nil
  then show ?case by simp
next
  case (Cons gid gids)
  from Cons.prems obtain rec rest where
    "CopyData dev (tableOffset + gid * 4) 4 = Inr rec"
    "WriteHmtxTable_loop dev tableOffset gids = Inr rest" "bytes = rec @ rest"
    by (auto split: sum.splits)
  with Cons.IH [of rest] CopyData_length [of dev "tableOffset + gid * 4" 4 rec]
  show ?case by simp
qed

lemma WriteHmtxTable_length:
  "WriteHmtxTable s = Inr bytes \<Longrightarrow> length bytes = 4 * length (m_orderedGIDs s)"
  by (auto simp: WriteHmtxTable_def split: sum.splits dest: WriteHmtxTable_loop_length)

lemma WriteLocaTable_loop_length:
  "length (fst (WriteLocaTable_loop isLongLoca glyphDatas glyphAddress gids))
     = (if isLongLoca then 4 else 2) * (length gids + 1)"
proof (induction gids arbitrary: glyphDatas glyphAddress)
  case Nil
  show ?case by (simp add: UInt32BE_def UInt16BE_def)
next
  case (Cons gid gids)
  obtain glyphData glyphDatas' where at: "glyphDatas_at glyphDatas gid = (glyphData, glyphDatas')"
    by (cases "glyphDatas_at glyphDatas gid")
  obtain rest glyphDatas'' where
    loop: "WriteLocaTable_loop isLongLoca glyphDatas' (glyphAddress + GlyphLength glyphData) gids
             = (rest, glyphDatas'')"
    by (cases "WriteLocaTable_loop isLongLoca glyphDatas' (glyphAddress + GlyphLength glyphData) gids")
  from Cons.IH [of glyphDatas' "glyphAddress + GlyphLength glyphData"] loop
  have "length rest = (if isLongLoca then 4 else 2) * (length gids + 1)"
    by simp
  with at loop show ?case
    by (simp add: UInt32BE_def UInt16BE_def)
qed

lemma WriteLocaTable_length:
  "length (fst (WriteLocaTable s))
     = (if m_isLongLoca s then 4 else 2) * (length (m_orderedGIDs s) + 1)"
proof -
  obtain bytes glyphDatas where
    loop: "WriteLocaTable_loop (m_isLongLoca s) (m_glyphDatas s) 0 (m_orderedGIDs s)
             = (bytes, glyphDatas)"
    by (cases "WriteLocaTable_loop (m_isLongLoca s) (m_glyphDatas s) 0 (m_orderedGIDs s)")
  with WriteLocaTable_loop_length [of "m_isLongLoca s" "m_glyphDatas s" 0 "m_orderedGIDs s"]
  have "length bytes = (if m_isLongLoca s then 4 else 2) * (length (m_orderedGIDs s) + 1)"
    by simp
  with loop show ?thesis
    by (simp add: WriteLocaTable_def)
qed

section \<open>The new glyph ids\<close>

lemma position_append: "x \<in> set xs \<Longrightarrow> position (xs @ ys) x = position xs x"
  by (simp add: position_def takeWhile_append1)

lemma position_snoc_new: "x \<notin> set xs \<Longrightarrow> position (xs @ [x]) x = length xs"
proof -
  assume "x \<notin> set xs"
  then have "takeWhile (\<lambda>y. y \<noteq> x) (xs @ [x]) = xs @ takeWhile (\<lambda>y. y \<noteq> x) [x]"
    by (intro takeWhile_append2) auto
  then show ?thesis by (simp add: position_def)
qed

lemma std_map_find_insert:
  "k \<notin> fst ` set m \<Longrightarrow>
   std_map_find (std_map_insert k v m) k' = (if k' = k then Some v else std_map_find m k')"
  by (induction m) auto

lemma first_occurrences_distinct:
  assumes "distinct xs"
  shows "first_occurrences xs = xs"
proof -
  from assms have "distinct (rev xs)" by simp
  then have "remdups (rev xs) = rev xs" by (rule distinct_remdups_id)
  then show ?thesis unfolding first_occurrences_def by (simp only: rev_rev_ident)
qed

lemma first_occurrences_snoc_prefix:
  "\<exists>zs. first_occurrences (xs @ [x]) = first_occurrences xs @ zs"
  by (simp add: first_occurrences_snoc)

lemma index_ok_insert:
  assumes ok: "index_ok glyphIndexMap (first_occurrences orderedGIDs)"
  shows "index_ok (glyphIndexMap_insert glyphIndexMap gid) (first_occurrences (orderedGIDs @ [gid]))"
    and "glyphIndexMap_second glyphIndexMap gid
           = of_nat (position (first_occurrences (orderedGIDs @ [gid])) gid)"
    and "std_map_find glyphIndexMap gid = None \<longleftrightarrow> gid \<notin> set orderedGIDs"
proof -
  let ?seq = "first_occurrences orderedGIDs"
  from ok have keys: "fst ` set glyphIndexMap = set orderedGIDs"
    and len: "length glyphIndexMap = length ?seq"
    and at: "\<And>c. c \<in> set orderedGIDs
              \<Longrightarrow> std_map_find glyphIndexMap c = Some (of_nat (position ?seq c))"
    by (auto simp: index_ok_def list_all_iff)
  show none: "std_map_find glyphIndexMap gid = None \<longleftrightarrow> gid \<notin> set orderedGIDs"
    by (simp add: std_map_find_None keys)
  show "index_ok (glyphIndexMap_insert glyphIndexMap gid) (first_occurrences (orderedGIDs @ [gid]))"
  proof (cases "gid \<in> set orderedGIDs")
    case True
    with none obtain index where "std_map_find glyphIndexMap gid = Some index" by auto
    with True ok show ?thesis
      by (simp add: glyphIndexMap_insert_def first_occurrences_snoc)
  next
    case False
    with none have ins: "glyphIndexMap_insert glyphIndexMap gid
        = std_map_insert gid (of_nat (length glyphIndexMap)) glyphIndexMap"
      by (simp add: glyphIndexMap_insert_def)
    from False keys have fresh: "gid \<notin> fst ` set glyphIndexMap" by simp
    have "std_map_find (glyphIndexMap_insert glyphIndexMap gid) c
            = Some (of_nat (position (?seq @ [gid]) c))"
      if "c \<in> set (?seq @ [gid])" for c
    proof (cases "c = gid")
      case True
      with False len show ?thesis
        by (simp add: ins std_map_find_insert [OF fresh] position_snoc_new)
    next
      case False
      with that have "c \<in> set orderedGIDs" by simp
      with False at [OF this] show ?thesis
        by (simp add: ins std_map_find_insert [OF fresh] position_append)
    qed
    with False ok keys len show ?thesis
      by (simp add: index_ok_def list_all_iff first_occurrences_snoc ins set_std_map_insert
            length_std_map_insert)
  qed
  show "glyphIndexMap_second glyphIndexMap gid
           = of_nat (position (first_occurrences (orderedGIDs @ [gid])) gid)"
  proof (cases "gid \<in> set orderedGIDs")
    case True
    with at [OF True] show ?thesis
      by (simp add: glyphIndexMap_second_def first_occurrences_snoc)
  next
    case False
    with none len show ?thesis
      by (simp add: glyphIndexMap_second_def first_occurrences_snoc position_snoc_new)
  qed
qed

lemma index_ok_foldl_insert:
  "index_ok glyphIndexMap (first_occurrences orderedGIDs) \<Longrightarrow>
   index_ok (foldl glyphIndexMap_insert glyphIndexMap gidList)
     (first_occurrences (orderedGIDs @ gidList))"
proof (induction gidList rule: rev_induct)
  case Nil
  then show ?case by simp
next
  case (snoc gid gidList)
  from index_ok_insert(1) [OF snoc.IH [OF snoc.prems], of gid] show ?case by simp
qed

lemma index_ok_renumber_step:
  assumes ok: "index_ok glyphIndexMap (first_occurrences orderedGIDs)"
    and step: "renumber_step (glyphIndexMap, orderedGIDs) gid = (glyphIndexMap', orderedGIDs')"
  shows "index_ok glyphIndexMap' (first_occurrences orderedGIDs')"
    and "glyphIndexMap_second glyphIndexMap gid
           = of_nat (position (first_occurrences orderedGIDs') gid)"
    and "\<exists>zs. first_occurrences orderedGIDs' = first_occurrences orderedGIDs @ zs"
    and "gid \<in> set orderedGIDs'"
proof -
  note ins = index_ok_insert [OF ok, of gid]
  from step ins(3) have ord: "orderedGIDs'
      = (if gid \<in> set orderedGIDs then orderedGIDs else orderedGIDs @ [gid])"
    and map: "glyphIndexMap' = glyphIndexMap_insert glyphIndexMap gid"
    by (auto simp: renumber_step_def)
  from ord have fo: "first_occurrences orderedGIDs' = first_occurrences (orderedGIDs @ [gid])"
    by (simp add: first_occurrences_snoc)
  from ins(1) map fo show "index_ok glyphIndexMap' (first_occurrences orderedGIDs')" by simp
  from ins(2) fo show "glyphIndexMap_second glyphIndexMap gid
           = of_nat (position (first_occurrences orderedGIDs') gid)" by simp
  from fo first_occurrences_snoc_prefix [of orderedGIDs gid]
  show "\<exists>zs. first_occurrences orderedGIDs' = first_occurrences orderedGIDs @ zs" by simp
  from ord show "gid \<in> set orderedGIDs'" by simp
qed

lemma LoadGlyphs_components_indices:
  "LoadGlyphs_components fuel dev d offset (glyphIndexMap, orderedGIDs)
     = Some (Inr (d', glyphIndexMap', orderedGIDs')) \<Longrightarrow>
   index_ok glyphIndexMap (first_occurrences orderedGIDs) \<Longrightarrow>
   \<exists>gids zs. component_gids fuel dev (GlyphAdvOffset d) offset = Some gids
     \<and> index_ok glyphIndexMap' (first_occurrences orderedGIDs')
     \<and> first_occurrences orderedGIDs' = first_occurrences orderedGIDs @ zs
     \<and> set gids \<subseteq> set orderedGIDs'
     \<and> map component_GlyphIndex (CompoundComponents d')
         = map component_GlyphIndex (CompoundComponents d)
           @ map (\<lambda>c. of_nat (position (first_occurrences orderedGIDs') c)) gids"
proof (induction fuel arbitrary: d offset glyphIndexMap orderedGIDs)
  case 0
  then show ?case by simp
next
  case (Suc fuel)
  from Suc.prems(1) obtain cmpData where
    rd: "ReadGlyphCompoundData dev (GlyphAdvOffset d + offset) = Inr cmpData"
    by (auto simp: Let_def split: sum.splits)
  let ?g = "GlyphIndex cmpData"
  obtain im1 ord1 where acc: "renumber_step (glyphIndexMap, orderedGIDs) ?g = (im1, ord1)"
    by (cases "renumber_step (glyphIndexMap, orderedGIDs) ?g")
  note step = index_ok_renumber_step [OF Suc.prems(2) acc]
  define d1 where "d1 = d\<lparr>CompoundComponents := CompoundComponents d @
      [\<lparr>component_Offset = GlyphAdvOffset d + offset + 2 - GlyphOffset d,
        component_GlyphIndex = glyphIndexMap_second glyphIndexMap ?g\<rparr>]\<rparr>"
  have d1: "GlyphAdvOffset d1 = GlyphAdvOffset d"
    "map component_GlyphIndex (CompoundComponents d1)
       = map component_GlyphIndex (CompoundComponents d)
         @ [of_nat (position (first_occurrences ord1) ?g)]"
    by (simp_all add: d1_def step(2))
  show ?case
  proof (cases "TryAdvanceCompoundOffset offset (Flags cmpData)")
    case None
    with Suc.prems(1) rd acc have "d' = d1" "glyphIndexMap' = im1" "orderedGIDs' = ord1"
      by (auto simp: Let_def d1_def renumber_step_def)
    with None rd d1 step show ?thesis by auto
  next
    case (Some offset')
    with Suc.prems(1) rd acc
    have run: "LoadGlyphs_components fuel dev d1 offset' (im1, ord1)
            = Some (Inr (d', glyphIndexMap', orderedGIDs'))"
      by (cases "std_map_find glyphIndexMap ?g")
         (auto simp: Let_def d1_def renumber_step_def)
    from Suc.IH [OF run step(1)] obtain gids zs where
      gids: "component_gids fuel dev (GlyphAdvOffset d) offset' = Some gids"
      and ok': "index_ok glyphIndexMap' (first_occurrences orderedGIDs')"
      and pre: "first_occurrences orderedGIDs' = first_occurrences ord1 @ zs"
      and sub: "set gids \<subseteq> set orderedGIDs'"
      and idx: "map component_GlyphIndex (CompoundComponents d')
         = map component_GlyphIndex (CompoundComponents d1)
           @ map (\<lambda>c. of_nat (position (first_occurrences orderedGIDs') c)) gids"
      by (auto simp: d1(1))
    from step(3) obtain zs1 where
      pre1: "first_occurrences ord1 = first_occurrences orderedGIDs @ zs1" by blast
    from step(4) have g1: "?g \<in> set (first_occurrences ord1)" by simp
    then have pos: "position (first_occurrences orderedGIDs') ?g
        = position (first_occurrences ord1) ?g"
      by (simp add: pre position_append)
    from g1 pre have g': "?g \<in> set orderedGIDs'"
      by (metis Un_iff set_append set_first_occurrences)
    from Some rd gids have "component_gids (Suc fuel) dev (GlyphAdvOffset d) offset
        = Some (?g # gids)" by simp
    moreover from pre pre1 have "first_occurrences orderedGIDs'
        = first_occurrences orderedGIDs @ (zs1 @ zs)" by simp
    moreover from idx d1(2) pos have "map component_GlyphIndex (CompoundComponents d')
         = map component_GlyphIndex (CompoundComponents d)
           @ map (\<lambda>c. of_nat (position (first_occurrences orderedGIDs') c)) (?g # gids)"
      by simp
    moreover from sub g' have "set (?g # gids) \<subseteq> set orderedGIDs'" by simp
    ultimately show ?thesis using ok' by blast
  qed
qed

lemma LoadGlyphs_remap_indices:
  "LoadGlyphs_remap fuel dev glyphDatas (glyphIndexMap, orderedGIDs)
     = Some (Inr (glyphDatas', glyphIndexMap', orderedGIDs')) \<Longrightarrow>
   index_ok glyphIndexMap (first_occurrences orderedGIDs) \<Longrightarrow>
   list_all (\<lambda>pair. CompoundComponents (snd pair) = []) glyphDatas \<Longrightarrow>
   index_ok glyphIndexMap' (first_occurrences orderedGIDs')
   \<and> (\<exists>zs. first_occurrences orderedGIDs' = first_occurrences orderedGIDs @ zs)
   \<and> list_all (\<lambda>pair. IsCompound (snd pair) \<longrightarrow>
         (\<exists>gids. component_gids fuel dev (GlyphAdvOffset (snd pair)) 0 = Some gids
            \<and> map component_GlyphIndex (CompoundComponents (snd pair))
                = map (\<lambda>c. of_nat (position (first_occurrences orderedGIDs') c)) gids))
       glyphDatas'"
proof (induction glyphDatas arbitrary: glyphIndexMap orderedGIDs glyphDatas')
  case Nil
  then show ?case by auto
next
  case (Cons pair rest)
  from Cons.prems(1) obtain d1 im1 ord1 rest' where
    head: "(if \<not> IsCompound (snd pair) then Some (Inr (snd pair, glyphIndexMap, orderedGIDs))
            else LoadGlyphs_components fuel dev (snd pair) 0 (glyphIndexMap, orderedGIDs))
           = Some (Inr (d1, im1, ord1))"
    and tail: "LoadGlyphs_remap fuel dev rest (im1, ord1)
           = Some (Inr (rest', glyphIndexMap', orderedGIDs'))"
    and res: "glyphDatas' = (fst pair, d1) # rest'"
    by (auto split: option.splits sum.splits prod.splits)
  from Cons.prems(3) have empty: "CompoundComponents (snd pair) = []"
    and rest_empty: "list_all (\<lambda>pair. CompoundComponents (snd pair) = []) rest"
    by simp_all
  have step: "index_ok im1 (first_occurrences ord1)
      \<and> (\<exists>zs. first_occurrences ord1 = first_occurrences orderedGIDs @ zs)
      \<and> (IsCompound d1 \<longrightarrow>
           (\<exists>gids. component_gids fuel dev (GlyphAdvOffset d1) 0 = Some gids
              \<and> set gids \<subseteq> set ord1
              \<and> map component_GlyphIndex (CompoundComponents d1)
                  = map (\<lambda>c. of_nat (position (first_occurrences ord1) c)) gids))"
  proof (cases "IsCompound (snd pair)")
    case False
    with head Cons.prems(2) show ?thesis by auto
  next
    case True
    with head have run: "LoadGlyphs_components fuel dev (snd pair) 0 (glyphIndexMap, orderedGIDs)
        = Some (Inr (d1, im1, ord1))" by simp
    from LoadGlyphs_components_eq [OF run] have "GlyphAdvOffset d1 = GlyphAdvOffset (snd pair)"
      by auto
    with LoadGlyphs_components_indices [OF run Cons.prems(2)] empty show ?thesis
      by auto
  qed
  then have ok1: "index_ok im1 (first_occurrences ord1)" by simp
  from Cons.IH [OF tail ok1 rest_empty] obtain zs where
    ok': "index_ok glyphIndexMap' (first_occurrences orderedGIDs')"
    and pre: "first_occurrences orderedGIDs' = first_occurrences ord1 @ zs"
    and rest': "list_all (\<lambda>pair. IsCompound (snd pair) \<longrightarrow>
         (\<exists>gids. component_gids fuel dev (GlyphAdvOffset (snd pair)) 0 = Some gids
            \<and> map component_GlyphIndex (CompoundComponents (snd pair))
                = map (\<lambda>c. of_nat (position (first_occurrences orderedGIDs') c)) gids))
       rest'"
    by blast
  from step obtain zs1 where pre1: "first_occurrences ord1 = first_occurrences orderedGIDs @ zs1"
    by blast
  have head': "\<exists>gids. component_gids fuel dev (GlyphAdvOffset d1) 0 = Some gids
            \<and> map component_GlyphIndex (CompoundComponents d1)
                = map (\<lambda>c. of_nat (position (first_occurrences orderedGIDs') c)) gids"
    if "IsCompound d1"
  proof -
    from step that obtain gids where
      gids: "component_gids fuel dev (GlyphAdvOffset d1) 0 = Some gids"
      and sub: "set gids \<subseteq> set ord1"
      and idx: "map component_GlyphIndex (CompoundComponents d1)
                  = map (\<lambda>c. of_nat (position (first_occurrences ord1) c)) gids"
      by blast
    have "position (first_occurrences orderedGIDs') c = position (first_occurrences ord1) c"
      if "c \<in> set gids" for c
      using that sub by (simp add: pre position_append subset_iff)
    then have "map (\<lambda>c. of_nat (position (first_occurrences ord1) c) :: 32 word) gids
        = map (\<lambda>c. of_nat (position (first_occurrences orderedGIDs') c)) gids"
      by simp
    with gids idx show ?thesis by simp
  qed
  from pre pre1 have "first_occurrences orderedGIDs'
      = first_occurrences orderedGIDs @ (zs1 @ zs)" by simp
  with ok' rest' head' res show ?case by auto
qed

lemma ReadGlyphData_components:
  "ReadGlyphData dev isLongLoca ctx gid = Inr glyphData \<Longrightarrow> CompoundComponents glyphData = []"
  by (auto simp: ReadGlyphData_def Let_def split: sum.splits if_splits prod.splits)

lemma LoadGlyphs_indices:
  assumes fresh: "m_glyphDatas s = []" "m_orderedGIDs s = []"
    and run: "LoadGlyphs fuel ctx s gidList = Some (Inr s')"
  shows "list_all (\<lambda>pair. IsCompound (snd pair) \<longrightarrow>
         (\<exists>gids. component_gids fuel (m_device s) (GlyphAdvOffset (snd pair)) 0 = Some gids
            \<and> map component_GlyphIndex (CompoundComponents (snd pair))
                = map (\<lambda>c. of_nat (position (first_occurrences (m_orderedGIDs s')) c)) gids))
       (m_glyphDatas s')"
proof -
  from run obtain s1 s2 glyphDatas' glyphIndexMap' orderedGIDs' where
    run1: "LoadGID fuel ctx s 0 = Some (Inr s1)"
    and run2: "LoadGlyphs_load fuel ctx s1 gidList = Some (Inr s2)"
    and run3: "LoadGlyphs_remap fuel (m_device s2) (m_glyphDatas s2)
                 (LoadGlyphs_index gidList (std_map_insert 0 0 [], m_orderedGIDs s2 @ [0]))
               = Some (Inr (glyphDatas', glyphIndexMap', orderedGIDs'))"
    and s': "s' = s2\<lparr>m_glyphDatas := glyphDatas', m_orderedGIDs := orderedGIDs'\<rparr>"
    by (auto simp: LoadGlyphs_def split: option.splits sum.splits)
  note walk = closure_walk_keys [OF run1 run2 fresh(1)]
  note same = load_post_same [OF walk(1)]
  from walk(1) have ok2: "glyph_map_ok (m_device s) (m_isLongLoca s) ctx (m_glyphDatas s2)"
    by (simp add: load_post_def)
  then have empty: "list_all (\<lambda>pair. CompoundComponents (snd pair) = []) (m_glyphDatas s2)"
    by (auto simp: glyph_map_ok_def list_all_iff dest: ReadGlyphData_components)
  have ord2: "m_orderedGIDs s2 = []" using same fresh(2) by simp
  have dev2: "m_device s2 = m_device s" using same by simp
  have run3': "LoadGlyphs_remap fuel (m_device s) (m_glyphDatas s2)
                 (foldl glyphIndexMap_insert (std_map_insert 0 0 []) gidList, [0] @ gidList)
               = Some (Inr (glyphDatas', glyphIndexMap', orderedGIDs'))"
    using run3 by (simp only: LoadGlyphs_index_eq ord2 dev2 append_Nil)
  have "index_ok (std_map_insert 0 0 []) (first_occurrences [0])"
    by (simp add: index_ok_def first_occurrences_def position_def)
  from index_ok_foldl_insert [OF this, of gidList]
  have "index_ok (foldl glyphIndexMap_insert (std_map_insert 0 0 []) gidList)
          (first_occurrences ([0] @ gidList))" .
  from LoadGlyphs_remap_indices [OF run3' this empty] s' show ?thesis
    by simp
qed

section \<open>The example font\<close>

lemmas read_defs = ReadUInt16BE_def ReadUInt32BE_def device_Read_def big_endian_def

lemmas tag_defs =
  TTAG_head_def TTAG_hhea_def TTAG_loca_def TTAG_maxp_def TTAG_glyf_def TTAG_hmtx_def
  TTAG_cvt_def TTAG_fpgm_def TTAG_prep_def TTAG_post_def TTAG_cmap_def

lemmas ReqTable_defs =
  ReqTable_none_def ReqTable_head_def ReqTable_hhea_def ReqTable_loca_def ReqTable_maxp_def
  ReqTable_glyf_def ReqTable_hmtx_def ReqTable_all_def

lemma Init_S5: "Init (new_PdfFontTrueTypeSubset font_S5) = Inr subset_S5"
  by (simp add: Init_def InitTables_def GetNumberOfGlyphs_def SeeIfLongLocaOrNot_def
        new_PdfFontTrueTypeSubset_def subset_S5_def InitTables_switch_def read_defs tag_defs
        ReqTable_defs font_S5_def)

lemma S5_reads:
  "ReadGlyphData font_S5 False ctx_S5 0 =
     Inr \<lparr>IsCompound = False, GlyphOffset = 108, GlyphLength = 18, GlyphAdvOffset = 118, CompoundComponents = []\<rparr>"
  "ReadGlyphData font_S5 False ctx_S5 3 =
     Inr \<lparr>IsCompound = False, GlyphOffset = 162, GlyphLength = 18, GlyphAdvOffset = 172, CompoundComponents = []\<rparr>"
  "ReadGlyphData font_S5 False ctx_S5 5 =
     Inr \<lparr>IsCompound = False, GlyphOffset = 198, GlyphLength = 18, GlyphAdvOffset = 208, CompoundComponents = []\<rparr>"
  "ReadGlyphData font_S5 False ctx_S5 7 =
     Inr \<lparr>IsCompound = True, GlyphOffset = 234, GlyphLength = 16, GlyphAdvOffset = 244, CompoundComponents = []\<rparr>"
  "ReadGlyphData font_S5 False ctx_S5 10 =
     Inr \<lparr>IsCompound = True, GlyphOffset = 286, GlyphLength = 22, GlyphAdvOffset = 296, CompoundComponents = []\<rparr>"
  "ReadGlyphCompoundData font_S5 244 = Inr \<lparr>Flags = 2, GlyphIndex = 3\<rparr>"
  "ReadGlyphCompoundData font_S5 296 = Inr \<lparr>Flags = 34, GlyphIndex = 5\<rparr>"
  "ReadGlyphCompoundData font_S5 302 = Inr \<lparr>Flags = 2, GlyphIndex = 7\<rparr>"
  by (simp_all add: ReadGlyphData_def ReadGlyphCompoundData_def ctx_S5_def read_defs font_S5_def)

text \<open>One unit of fuel, when the fuel is a numeral.\<close>

lemma LoadGID_numeral:
  "LoadGID (numeral k) ctx s gid =
     (if ucast (m_glyphCount s) \<le> gid then Some (Inl InternalLogic)
      else if std_map_find (m_glyphDatas s) gid \<noteq> None then Some (Inr s)
      else (case ReadGlyphData (m_device s) (m_isLongLoca s) ctx gid of
              Inl e \<Rightarrow> Some (Inl e)
            | Inr glyphData \<Rightarrow>
                (let s' = s\<lparr>m_glyphDatas := std_map_insert gid glyphData (m_glyphDatas s)\<rparr>
                 in if IsCompound glyphData then LoadCompound (pred_numeral k) ctx s' glyphData 0
                    else Some (Inr s'))))"
  by (subst numeral_eq_Suc) (rule LoadGID.simps(2))

lemma LoadCompound_numeral:
  "LoadCompound (numeral k) ctx s data offset =
     (case ReadGlyphCompoundData (m_device s) (GlyphAdvOffset data + offset) of
        Inl e \<Rightarrow> Some (Inl e)
      | Inr cmpData \<Rightarrow>
         (case LoadGID (pred_numeral k) ctx s (GlyphIndex cmpData) of
            None \<Rightarrow> None
          | Some (Inl e) \<Rightarrow> Some (Inl e)
          | Some (Inr s') \<Rightarrow>
             (case TryAdvanceCompoundOffset offset (Flags cmpData) of
                None \<Rightarrow> Some (Inr s')
              | Some offset' \<Rightarrow> LoadCompound (pred_numeral k) ctx s' data offset')))"
  by (subst numeral_eq_Suc) (rule LoadCompound.simps(2))

lemma LoadGlyphs_components_numeral:
  "LoadGlyphs_components (numeral k) dev glyphData offset (glyphIndexMap, orderedGIDs) =
     (let componentGlyphIdOffset = GlyphAdvOffset glyphData + offset
      in (case ReadGlyphCompoundData dev componentGlyphIdOffset of
            Inl e \<Rightarrow> Some (Inl e)
          | Inr cmpData \<Rightarrow>
             (let inserted = (std_map_find glyphIndexMap (GlyphIndex cmpData) = None);
                  index = glyphIndexMap_second glyphIndexMap (GlyphIndex cmpData);
                  glyphIndexMap' = glyphIndexMap_insert glyphIndexMap (GlyphIndex cmpData);
                  orderedGIDs' =
                    (if inserted then orderedGIDs @ [GlyphIndex cmpData] else orderedGIDs);
                  glyphData' = glyphData
                    \<lparr>CompoundComponents := CompoundComponents glyphData @
                       [\<lparr>component_Offset =
                            componentGlyphIdOffset + 2 - GlyphOffset glyphData,
                          component_GlyphIndex = index\<rparr>]\<rparr>
              in (case TryAdvanceCompoundOffset offset (Flags cmpData) of
                    None \<Rightarrow> Some (Inr (glyphData', glyphIndexMap', orderedGIDs'))
                  | Some offset' \<Rightarrow>
                      LoadGlyphs_components (pred_numeral k) dev glyphData' offset'
                        (glyphIndexMap', orderedGIDs')))))"
  by (subst numeral_eq_Suc) (rule LoadGlyphs_components.simps(2))

lemma component_gids_numeral:
  "component_gids (numeral k) dev adv offset =
     (case ReadGlyphCompoundData dev (adv + offset) of
        Inl e \<Rightarrow> None
      | Inr cmpData \<Rightarrow>
          (case TryAdvanceCompoundOffset offset (Flags cmpData) of
             None \<Rightarrow> Some [GlyphIndex cmpData]
           | Some offset' \<Rightarrow>
               (case component_gids (pred_numeral k) dev adv offset' of
                  None \<Rightarrow> None
                | Some gids \<Rightarrow> Some (GlyphIndex cmpData # gids))))"
  by (subst numeral_eq_Suc) (rule component_gids.simps(2))

lemmas fuel_numeral =
  LoadGID_numeral LoadCompound_numeral LoadGlyphs_components_numeral component_gids_numeral

lemma LoadGlyphs_S5: "LoadGlyphs 20 ctx_S5 subset_S5 [10] = Some (Inr subset_S5_loaded)"
  by (simp add: LoadGlyphs_def subset_S5_def subset_S5_loaded_def S5_reads fuel_numeral
        TryAdvanceCompoundOffset_def glyphIndexMap_insert_def glyphIndexMap_second_def Let_def)

lemma LoadGlyphs_S5_repeated:
  "LoadGlyphs 20 ctx_S5 subset_S5 [5, 0, 5] = Some (Inr subset_S5_repeated)"
  by (simp add: LoadGlyphs_def subset_S5_def subset_S5_repeated_def S5_reads fuel_numeral
        TryAdvanceCompoundOffset_def glyphIndexMap_insert_def glyphIndexMap_second_def Let_def)

lemma components_in_map_order_S5:
  "components_in_map_order 20 font_S5 (m_glyphDatas subset_S5_loaded) = [3, 5, 7]"
  by (simp add: components_in_map_order_def components_of_entry_def subset_S5_loaded_def
        S5_reads fuel_numeral TryAdvanceCompoundOffset_def)

section \<open>Writing the example fonts\<close>

lemma GetTableCheksum_loop_numeral:
  "GetTableCheksum_loop char_is_signed [] (numeral k) acc = Inl UndefinedBehaviour"
  "GetTableCheksum_loop char_is_signed (b # buf) (numeral k) acc =
     GetTableCheksum_loop char_is_signed buf (pred_numeral k)
       (acc + (if char_is_signed then scast b else ucast b))"
  by (subst numeral_eq_Suc, simp)+

lemma Suc_Suc_0: "Suc (Suc 0) = 2"
  by simp

lemma replicate_numeral_Cons: "replicate (numeral k) x = x # replicate (pred_numeral k) x"
  by (subst numeral_eq_Suc) simp

lemmas write_defs =
  WriteTables_def WriteTables_switch_def WriteGlyphTable_def WriteHmtxTable_def
  WriteLocaTable_def glyphDatas_at_def CopyData_def device_Read_def poke_def
  numGlyphs_written_def directory_placeholder_def UInt32BE_def UInt16BE_def
  GetTableCheksum_def GetTableCheksum_loop_numeral Let_def Suc_Suc_0 replicate_numeral_Cons

lemma WriteTables_S5:
  "WriteTables True subset_S5_loaded = Inr subset_font_S5"
  "WriteTables False subset_S5_loaded = Inr subset_font_S5_unsigned"
  by (simp_all add: write_defs tag_defs subset_S5_loaded_def font_S5_def subset_font_S5_def
        subset_font_S5_unsigned_def)

lemma GetTableOffset_S5:
  "GetTableOffset (m_tables subset_S5) TTAG_glyf = Inr 108"
  "GetTableOffset (m_tables subset_S5) TTAG_loca = Inr 444"
  by (simp_all add: subset_S5_def tag_defs)

lemma BuildFont_S5:
  "BuildFont True 20 font_S5 [10] = Some (Inr subset_font_S5)"
  "BuildFont False 20 font_S5 [10] = Some (Inr subset_font_S5_unsigned)"
  by (simp_all add: BuildFont_def Init_S5 GetTableOffset_S5 ctx_S5_def [symmetric]
        LoadGlyphs_S5 WriteTables_S5)

lemma checksum_of_words_S5:
  "checksum_of_words subset_font_S5 = 0xAFE72CE2"
  "checksum_of_words subset_font_S5_unsigned = 0xAFE72DDC"
  by (simp_all add: subset_font_S5_def subset_font_S5_unsigned_def big_endian_def)

lemma tables_S5_repeated:
  "WriteGlyphTable subset_S5_repeated =
     Inr ([0, 1, 0, 0, 0, 0, 0, 0, 0, 0, 0, 0, 0, 0, 1, 0, 2, 0,
           0, 1, 0, 0, 0, 0, 0, 0, 0, 0, 0, 0, 0, 0, 1, 5, 2, 0,
           0, 1, 0, 0, 0, 0, 0, 0, 0, 0, 0, 0, 0, 0, 1, 0, 2, 0,
           0, 1, 0, 0, 0, 0, 0, 0, 0, 0, 0, 0, 0, 0, 1, 5, 2, 0], subset_S5_repeated)"
  "WriteHmtxTable subset_S5_repeated =
     Inr [1, 244, 0, 0, 1, 249, 0, 5, 1, 244, 0, 0, 1, 249, 0, 5]"
  "WriteLocaTable subset_S5_repeated = ([0, 0, 0, 9, 0, 18, 0, 27, 0, 36], subset_S5_repeated)"
  "numGlyphs_written subset_S5_repeated = 2"
  by (simp_all add: write_defs tag_defs subset_S5_repeated_def font_S5_def)

lemma Init_without_hmtx:
  "Init (new_PdfFontTrueTypeSubset font_without_hmtx) = Inr subset_without_hmtx"
  by (simp add: Init_def InitTables_def GetNumberOfGlyphs_def SeeIfLongLocaOrNot_def
        new_PdfFontTrueTypeSubset_def subset_without_hmtx_def InitTables_switch_def read_defs
        tag_defs ReqTable_defs font_without_hmtx_def)

lemma InitTables_without_hmtx:
  "InitTables (new_PdfFontTrueTypeSubset font_without_hmtx)
     = Inr (new_PdfFontTrueTypeSubset font_without_hmtx\<lparr>m_tables := m_tables subset_without_hmtx\<rparr>)"
  by (simp add: InitTables_def new_PdfFontTrueTypeSubset_def subset_without_hmtx_def
        InitTables_switch_def read_defs tag_defs ReqTable_defs font_without_hmtx_def)

lemma GetTableOffset_without_hmtx:
  "GetTableOffset (m_tables subset_without_hmtx) TTAG_glyf = Inr 92"
  "GetTableOffset (m_tables subset_without_hmtx) TTAG_loca = Inr 204"
  by (simp_all add: subset_without_hmtx_def tag_defs)

lemma LoadGlyphs_without_hmtx:
  "LoadGlyphs 20 \<lparr>GlyfTableOffset = 92, LocaTableOffset = 204\<rparr> subset_without_hmtx [] =
     Some (Inr (subset_without_hmtx
       \<lparr>m_glyphDatas :=
          [(0, \<lparr>IsCompound = False, GlyphOffset = 92, GlyphLength = 18, GlyphAdvOffset = 102,
                 CompoundComponents = []\<rparr>)],
        m_orderedGIDs := [0]\<rparr>))"
  by (simp add: LoadGlyphs_def fuel_numeral ReadGlyphData_def read_defs
        subset_without_hmtx_def font_without_hmtx_def)

lemma WriteTables_without_hmtx:
  "WriteTables True (subset_without_hmtx
       \<lparr>m_glyphDatas :=
          [(0, \<lparr>IsCompound = False, GlyphOffset = 92, GlyphLength = 18, GlyphAdvOffset = 102,
                 CompoundComponents = []\<rparr>)],
        m_orderedGIDs := [0]\<rparr>) = Inr subset_font_without_hmtx"
  "WriteTables False (subset_without_hmtx
       \<lparr>m_glyphDatas :=
          [(0, \<lparr>IsCompound = False, GlyphOffset = 92, GlyphLength = 18, GlyphAdvOffset = 102,
                 CompoundComponents = []\<rparr>)],
        m_orderedGIDs := [0]\<rparr>) = Inr subset_font_without_hmtx_unsigned"
  by (simp_all add: write_defs tag_defs subset_without_hmtx_def font_without_hmtx_def
        subset_font_without_hmtx_def subset_font_without_hmtx_unsigned_def)

lemma BuildFont_without_hmtx:
  "BuildFont True 20 font_without_hmtx [] = Some (Inr subset_font_without_hmtx)"
  "BuildFont False 20 font_without_hmtx [] = Some (Inr subset_font_without_hmtx_unsigned)"
  by (simp_all add: BuildFont_def Init_without_hmtx GetTableOffset_without_hmtx
        LoadGlyphs_without_hmtx WriteTables_without_hmtx)

lemma Init_head_only:
  "InitTables (new_PdfFontTrueTypeSubset font_head_only)
     = Inr (new_PdfFontTrueTypeSubset font_head_only
              \<lparr>m_tables := [\<lparr>Tag = TTAG_head, Checksum = 0, Length = 54, Offset = 28\<rparr>]\<rparr>)"
  "Init (new_PdfFontTrueTypeSubset font_head_only) = Inl InternalLogic"
  by (simp_all add: Init_def InitTables_def GetNumberOfGlyphs_def
        new_PdfFontTrueTypeSubset_def InitTables_switch_def read_defs tag_defs ReqTable_defs
        font_head_only_def)

section \<open>A newly constructed subsetter\<close>

lemma Init_fresh:
  assumes "Init (new_PdfFontTrueTypeSubset dev) = Inr s"
  shows "m_device s = dev" and "m_glyphDatas s = []" and "m_orderedGIDs s = []"
proof -
  from assms obtain s1 s2 where
    s1: "InitTables (new_PdfFontTrueTypeSubset dev) = Inr s1"
    and s2: "GetNumberOfGlyphs s1 = Inr s2"
    and s: "SeeIfLongLocaOrNot s2 = Inr s"
    by (auto simp: Init_def split: sum.splits)
  from s1 have "m_device s1 = dev \<and> m_glyphDatas s1 = [] \<and> m_orderedGIDs s1 = []"
    by (auto simp: InitTables_def new_PdfFontTrueTypeSubset_def
          split: sum.splits prod.splits if_splits simp del: InitTables_loop.simps)
  with s2 have "m_device s2 = dev \<and> m_glyphDatas s2 = [] \<and> m_orderedGIDs s2 = []"
    by (auto simp: GetNumberOfGlyphs_def split: sum.splits)
  with s show "m_device s = dev" and "m_glyphDatas s = []" and "m_orderedGIDs s = []"
    by (auto simp: SeeIfLongLocaOrNot_def split: sum.splits)
qed

section \<open>What the checksum function adds up\<close>

text \<open>The value of a byte read through a pointer to \<open>char\<close>, promoted to \<open>int\<close>.\<close>

lemma GetTableCheksum_loop_sum:
  "n \<le> length buf \<Longrightarrow>
   GetTableCheksum_loop char_is_signed buf n acc
     = Inr (acc + sum_list (map (\<lambda>b. if char_is_signed then scast b else ucast b) (take n buf)))"
proof (induction n arbitrary: buf acc)
  case 0
  then show ?case by simp
next
  case (Suc n)
  then obtain b buf' where buf: "buf = b # buf'" by (cases buf) auto
  with Suc.prems have "n \<le> length buf'" by simp
  from Suc.IH [OF this] buf show ?case by (simp add: add.assoc)
qed

lemma GetTableCheksum_sums_bytes:
  "unat ((buf_size + 3) div 4) \<le> length buf \<Longrightarrow>
   GetTableCheksum char_is_signed buf buf_size
     = Inr (sum_list (map (\<lambda>b. if char_is_signed then scast b else ucast b)
              (take (unat ((buf_size + 3) div 4)) buf)))"
  by (simp add: GetTableCheksum_def GetTableCheksum_loop_sum)

section \<open>The glyph table written\<close>

lemma poke_length: "poke buffer pos bytes = Inr buffer' \<Longrightarrow> length buffer' = length buffer"
  by (auto simp: poke_def split: if_splits)

lemma fix_components_length:
  "fix_components tmpBuffer components = Inr bytes \<Longrightarrow> length bytes = length tmpBuffer"
proof (induction components arbitrary: tmpBuffer)
  case Nil
  then show ?case by simp
next
  case (Cons component components)
  from Cons.prems obtain tmpBuffer' where
    p: "poke tmpBuffer (unat (component_Offset component))
          (UInt16BE (ucast (component_GlyphIndex component))) = Inr tmpBuffer'"
    and f: "fix_components tmpBuffer' components = Inr bytes"
    by (auto split: sum.splits)
  from Cons.IH [OF f] poke_length [OF p] show ?case by simp
qed

lemma device_Read_length: "device_Read dev pos n = Inr bytes \<Longrightarrow> length bytes = n"
  by (auto simp: device_Read_def split: if_splits)

lemma glyphDatas_at_key:
  "gid \<in> fst ` set glyphDatas \<Longrightarrow>
   \<exists>glyphData. std_map_find glyphDatas gid = Some glyphData
     \<and> glyphDatas_at glyphDatas gid = (glyphData, glyphDatas)"
  using std_map_find_None [of glyphDatas gid]
  by (cases "std_map_find glyphDatas gid") (auto simp: glyphDatas_at_def)

lemma WriteGlyphTable_loop_length:
  "set gids \<subseteq> fst ` set glyphDatas \<Longrightarrow>
   WriteGlyphTable_loop dev glyphDatas gids = Inr (bytes, glyphDatas') \<Longrightarrow>
   glyphDatas' = glyphDatas
   \<and> length bytes
       = sum_list (map (\<lambda>gid. unat (GlyphLength (the (std_map_find glyphDatas gid)))) gids)"
proof (induction gids arbitrary: bytes glyphDatas')
  case Nil
  then show ?case by simp
next
  case (Cons gid gids)
  from Cons.prems(1) have "gid \<in> fst ` set glyphDatas" by simp
  from glyphDatas_at_key [OF this] obtain glyphData where
    find: "std_map_find glyphDatas gid = Some glyphData"
    and at: "glyphDatas_at glyphDatas gid = (glyphData, glyphDatas)"
    by blast
  let ?glyph =
    "if GlyphLength glyphData = 0 then Inr []
     else if IsCompound glyphData
     then (case device_Read dev (unat (GlyphOffset glyphData)) (unat (GlyphLength glyphData)) of
             Inl e \<Rightarrow> Inl e
           | Inr tmpBuffer \<Rightarrow> fix_components tmpBuffer (CompoundComponents glyphData))
     else CopyData dev (GlyphOffset glyphData) (GlyphLength glyphData)"
  from Cons.prems(2) at obtain glyph rest glyphDatas'' where
    glyph: "?glyph = Inr glyph"
    and rest: "WriteGlyphTable_loop dev glyphDatas gids = Inr (rest, glyphDatas'')"
    and bytes: "bytes = glyph @ rest" "glyphDatas' = glyphDatas''"
    by (auto split: sum.splits)
  from glyph have len: "length glyph = unat (GlyphLength glyphData)"
    by (auto simp: CopyData_def split: if_splits sum.splits
          dest!: device_Read_length fix_components_length)
  from Cons.prems(1) have "set gids \<subseteq> fst ` set glyphDatas" by simp
  from Cons.IH [OF this rest] bytes len find show ?case by simp
qed

section \<open>The metrics table written\<close>

lemma WriteHmtxTable_loop_records:
  "WriteHmtxTable_loop dev tableOffset gids = Inr bytes \<Longrightarrow>
   bytes = concat (map (\<lambda>gid. take 4 (drop (unat (tableOffset + gid * 4)) dev)) gids)"
proof (induction gids arbitrary: bytes)
  case Nil
  then show ?case by simp
next
  case (Cons gid gids)
  from Cons.prems obtain metrics rest where
    copy: "CopyData dev (tableOffset + gid * 4) 4 = Inr metrics"
    and rest: "WriteHmtxTable_loop dev tableOffset gids = Inr rest"
    and bytes: "bytes = metrics @ rest"
    by (auto split: sum.splits)
  from copy have "metrics = take 4 (drop (unat (tableOffset + gid * 4)) dev)"
    by (auto simp: CopyData_def device_Read_def split: if_splits)
  with Cons.IH [OF rest] bytes show ?case by simp
qed

lemma WriteHmtxTable_records:
  "WriteHmtxTable s = Inr bytes \<Longrightarrow>
   \<exists>tableOffset. GetTableOffset (m_tables s) TTAG_hmtx = Inr tableOffset
     \<and> bytes = concat (map (\<lambda>gid. take 4 (drop (unat (tableOffset + gid * 4)) (m_device s)))
                 (m_orderedGIDs s))"
  by (auto simp: WriteHmtxTable_def split: sum.splits dest: WriteHmtxTable_loop_records)

section \<open>The checksum\<close>

text \<open>
  C1: \<open>GetTableCheksum\<close> reads through a pointer to \<open>char\<close>, so it adds up the first
  \<open>(size + 3) / 4\<close> bytes of the range, each promoted to \<open>int\<close>, and not the
  big-endian 32-bit words of the range padded with zeros.  On the four bytes
  \<open>00 00 00 01\<close> it returns 0, where the sum of the words is 1.  The subset font
  built from \<open>font_S5\<close> for the glyph list \<open>[10]\<close> carries an adjustment computed with
  this function, and its checksum of words is not \<open>0xB1B0AFBA\<close>, whether \<open>char\<close> is
  signed or not.
\<close>

theorem C1_GetTableCheksum_sums_bytes:
  "(unat ((buf_size + 3) div 4) \<le> length buf
      \<longrightarrow> GetTableCheksum char_is_signed buf buf_size
            = Inr (sum_list (map (\<lambda>b. if char_is_signed then scast b else ucast b)
                     (take (unat ((buf_size + 3) div 4)) buf))))
   \<and> GetTableCheksum True [0, 0, 0, 1] 4 = Inr 0
   \<and> GetTableCheksum False [0, 0, 0, 1] 4 = Inr 0
   \<and> checksum_of_words [0, 0, 0, 1] = 1
   \<and> BuildFont True 20 font_S5 [10] = Some (Inr subset_font_S5)
   \<and> checksum_of_words subset_font_S5 = 0xAFE72CE2
   \<and> checksum_of_words subset_font_S5 \<noteq> 0xB1B0AFBA
   \<and> BuildFont False 20 font_S5 [10] = Some (Inr subset_font_S5_unsigned)
   \<and> checksum_of_words subset_font_S5_unsigned = 0xAFE72DDC
   \<and> checksum_of_words subset_font_S5_unsigned \<noteq> 0xB1B0AFBA"
proof -
  have small:
    "GetTableCheksum True [0, 0, 0, 1] 4 = Inr 0"
    "GetTableCheksum False [0, 0, 0, 1] 4 = Inr 0"
    "checksum_of_words [0, 0, 0, 1] = 1"
    by (simp_all add: GetTableCheksum_def big_endian_def)
  from GetTableCheksum_sums_bytes [of buf_size buf char_is_signed] small BuildFont_S5
    checksum_of_words_S5
  show ?thesis by simp
qed

theorem C1_GetTableCheksum_sums_bytes_witness:
  "unat (((6 :: 32 word) + 3) div 4) \<le> length [1, 2, 3, 4, 5, 6, 0, 0 :: 8 word]
   \<and> GetTableCheksum False [1, 2, 3, 4, 5, 6, 0, 0] 6 = Inr 3
   \<and> checksum_of_words [1, 2, 3, 4, 5, 6] = 0x06080304"
  using C1_GetTableCheksum_sums_bytes [of 6 "[1, 2, 3, 4, 5, 6, 0, 0]" False]
  by (simp add: big_endian_def)

section \<open>The required tables\<close>

text \<open>
  C2: \<open>InitTables\<close> raises \<open>UnsupportedFontFormat\<close> only when the mask of the
  required tables met is empty, that is when none of the six is present.
  \<open>font_without_hmtx\<close> has five directory entries, \<open>glyf\<close>, \<open>head\<close>, \<open>hhea\<close>, \<open>loca\<close>
  and \<open>maxp\<close>, and no \<open>hmtx\<close>: the table scan succeeds, and so does the whole build,
  which writes a font without \<open>hmtx\<close>.  \<open>font_head_only\<close> has the one entry \<open>head\<close>:
  the table scan succeeds, and the build fails later, in \<open>GetTableOffset\<close>, with
  \<open>InternalLogic\<close>.
\<close>

theorem C2_missing_table_accepted:
  "ReadUInt16BE font_without_hmtx 4 = Inr 5
   \<and> InitTables (new_PdfFontTrueTypeSubset font_without_hmtx)
       = Inr (new_PdfFontTrueTypeSubset font_without_hmtx
                \<lparr>m_tables := m_tables subset_without_hmtx\<rparr>)
   \<and> map Tag (m_tables subset_without_hmtx)
       = [TTAG_glyf, TTAG_head, TTAG_hhea, TTAG_loca, TTAG_maxp]
   \<and> TTAG_hmtx \<notin> set (map Tag (m_tables subset_without_hmtx))
   \<and> Init (new_PdfFontTrueTypeSubset font_without_hmtx) = Inr subset_without_hmtx
   \<and> BuildFont True 20 font_without_hmtx [] = Some (Inr subset_font_without_hmtx)
   \<and> BuildFont False 20 font_without_hmtx [] = Some (Inr subset_font_without_hmtx_unsigned)
   \<and> ReadUInt16BE font_head_only 4 = Inr 1
   \<and> InitTables (new_PdfFontTrueTypeSubset font_head_only)
       = Inr (new_PdfFontTrueTypeSubset font_head_only
                \<lparr>m_tables := [\<lparr>Tag = TTAG_head, Checksum = 0, Length = 54, Offset = 28\<rparr>]\<rparr>)
   \<and> Init (new_PdfFontTrueTypeSubset font_head_only) = Inl InternalLogic
   \<and> BuildFont True 20 font_head_only [] = Some (Inl InternalLogic)
   \<and> BuildFont False 20 font_head_only [] = Some (Inl InternalLogic)"
proof -
  have count:
    "ReadUInt16BE font_without_hmtx 4 = Inr 5"
    "ReadUInt16BE font_head_only 4 = Inr 1"
    by (simp_all add: read_defs font_without_hmtx_def font_head_only_def)
  have tags:
    "map Tag (m_tables subset_without_hmtx)
       = [TTAG_glyf, TTAG_head, TTAG_hhea, TTAG_loca, TTAG_maxp]"
    "TTAG_hmtx \<notin> set (map Tag (m_tables subset_without_hmtx))"
    by (simp_all add: subset_without_hmtx_def tag_defs)
  have build:
    "BuildFont True 20 font_head_only [] = Some (Inl InternalLogic)"
    "BuildFont False 20 font_head_only [] = Some (Inl InternalLogic)"
    by (simp_all add: BuildFont_def Init_head_only)
  from count tags build InitTables_without_hmtx Init_without_hmtx BuildFont_without_hmtx
    Init_head_only
  show ?thesis by simp
qed

section \<open>The order of the glyphs\<close>

text \<open>
  C3, as stated, fails.  In \<open>font_S5\<close> glyph 10 is compound over glyphs 5 and 7 and
  glyph 7 is compound over glyph 3.  With the glyph list \<open>[10]\<close> the subsetter ends
  with the glyphs in the order \<open>[0, 10, 3, 5, 7]\<close>, not \<open>[0, 10, 5, 7, 3]\<close>: the
  second pass of \<open>LoadGlyphs\<close> goes over the loaded glyphs by ascending glyph id, so
  it meets glyph 7 and its component 3 before glyph 10 and its components 5 and 7.
  The component fields are rewritten with 3 as 2, 5 as 3 and 7 as 4: the field of
  glyph 7 becomes 2, the fields of glyph 10 become 3 and 4.
\<close>

theorem C3_LoadGlyphs_counterexample:
  "Init (new_PdfFontTrueTypeSubset font_S5) = Inr subset_S5
   \<and> GetTableOffset (m_tables subset_S5) TTAG_glyf = Inr (GlyfTableOffset ctx_S5)
   \<and> GetTableOffset (m_tables subset_S5) TTAG_loca = Inr (LocaTableOffset ctx_S5)
   \<and> ReadGlyphData font_S5 False ctx_S5 10 =
        Inr \<lparr>IsCompound = True, GlyphOffset = 286, GlyphLength = 22, GlyphAdvOffset = 296,
             CompoundComponents = []\<rparr>
   \<and> component_gids 20 font_S5 296 0 = Some [5, 7]
   \<and> ReadGlyphData font_S5 False ctx_S5 7 =
        Inr \<lparr>IsCompound = True, GlyphOffset = 234, GlyphLength = 16, GlyphAdvOffset = 244,
             CompoundComponents = []\<rparr>
   \<and> component_gids 20 font_S5 244 0 = Some [3]
   \<and> LoadGlyphs 20 ctx_S5 subset_S5 [10] = Some (Inr subset_S5_loaded)
   \<and> m_orderedGIDs subset_S5_loaded = [0, 10, 3, 5, 7]
   \<and> m_orderedGIDs subset_S5_loaded \<noteq> [0, 10, 5, 7, 3]
   \<and> map (\<lambda>pair. (fst pair, map component_GlyphIndex (CompoundComponents (snd pair))))
         (m_glyphDatas subset_S5_loaded)
       = [(0, []), (3, []), (5, []), (7, [2]), (10, [3, 4])]"
proof -
  have walk:
    "component_gids 20 font_S5 296 0 = Some [5, 7]"
    "component_gids 20 font_S5 244 0 = Some [3]"
    by (simp_all add: S5_reads fuel_numeral TryAdvanceCompoundOffset_def)
  have offsets:
    "GetTableOffset (m_tables subset_S5) TTAG_glyf = Inr (GlyfTableOffset ctx_S5)"
    "GetTableOffset (m_tables subset_S5) TTAG_loca = Inr (LocaTableOffset ctx_S5)"
    by (simp_all add: GetTableOffset_S5 ctx_S5_def)
  have loaded:
    "m_orderedGIDs subset_S5_loaded = [0, 10, 3, 5, 7]"
    "m_orderedGIDs subset_S5_loaded \<noteq> [0, 10, 5, 7, 3]"
    "map (\<lambda>pair. (fst pair, map component_GlyphIndex (CompoundComponents (snd pair))))
         (m_glyphDatas subset_S5_loaded)
       = [(0, []), (3, []), (5, []), (7, [2]), (10, [3, 4])]"
    by (simp_all add: subset_S5_loaded_def)
  from walk offsets loaded Init_S5 S5_reads(4,5) LoadGlyphs_S5
  show ?thesis by simp
qed

text \<open>
  C3, amended: when \<open>LoadGlyphs\<close> succeeds on a newly initialised subsetter, the
  ordered glyph list is glyph 0, then the glyph list of the caller as given, every
  occurrence of it, then the component glyphs that are not among these, each once, in
  the order in which a pass over the loaded glyphs by ascending glyph id meets them,
  the components of a compound glyph in the order of its component records.  The
  loaded glyphs are kept by ascending glyph id, and they and the ordered list hold
  exactly the closure of glyph 0 and the glyph list under the components.  The
  component fields of every loaded compound glyph are rewritten, in the order of its
  component records, to the new ids of the components: the new id of a glyph is the
  position of its first occurrence in the ordered list with later occurrences of an
  entry left out, which is the ordered list itself when the glyph list has no repeated
  glyph id and does not hold glyph 0.  For \<open>font_S5\<close> and the glyph list \<open>[10]\<close> the
  ordered list is \<open>[0, 10, 3, 5, 7]\<close>, the component field of glyph 7 is rewritten to
  2 and those of glyph 10 to 3 and 4.
\<close>

theorem C3_LoadGlyphs_order:
  "(Init (new_PdfFontTrueTypeSubset dev) = Inr s \<and> LoadGlyphs fuel ctx s gidList = Some (Inr s')
      \<longrightarrow> m_orderedGIDs s'
            = 0 # gidList @ first_occurrences
                (filter (\<lambda>g. g \<notin> set (0 # gidList))
                   (components_in_map_order fuel dev (m_glyphDatas s')))
          \<and> sorted_wrt (<) (map fst (m_glyphDatas s'))
          \<and> set (map fst (m_glyphDatas s'))
              = glyph_closure dev (m_isLongLoca s) ctx (set (0 # gidList))
          \<and> set (m_orderedGIDs s')
              = glyph_closure dev (m_isLongLoca s) ctx (set (0 # gidList))
          \<and> list_all (\<lambda>pair. IsCompound (snd pair) \<longrightarrow>
                (\<exists>gids. component_gids fuel dev (GlyphAdvOffset (snd pair)) 0 = Some gids
                   \<and> map component_GlyphIndex (CompoundComponents (snd pair))
                       = map (\<lambda>c. of_nat (position (first_occurrences (m_orderedGIDs s')) c))
                           gids))
              (m_glyphDatas s')
          \<and> (distinct gidList \<and> 0 \<notin> set gidList
                \<longrightarrow> first_occurrences (m_orderedGIDs s') = m_orderedGIDs s'))
   \<and> LoadGlyphs 20 ctx_S5 subset_S5 [10] = Some (Inr subset_S5_loaded)
   \<and> m_orderedGIDs subset_S5_loaded = [0, 10, 3, 5, 7]
   \<and> map (\<lambda>pair. (fst pair, map component_GlyphIndex (CompoundComponents (snd pair))))
         (m_glyphDatas subset_S5_loaded)
       = [(0, []), (3, []), (5, []), (7, [2]), (10, [3, 4])]"
proof -
  have general:
    "m_orderedGIDs s'
       = 0 # gidList @ first_occurrences
           (filter (\<lambda>g. g \<notin> set (0 # gidList))
              (components_in_map_order fuel dev (m_glyphDatas s')))
     \<and> sorted_wrt (<) (map fst (m_glyphDatas s'))
     \<and> set (map fst (m_glyphDatas s'))
         = glyph_closure dev (m_isLongLoca s) ctx (set (0 # gidList))
     \<and> set (m_orderedGIDs s')
         = glyph_closure dev (m_isLongLoca s) ctx (set (0 # gidList))
     \<and> list_all (\<lambda>pair. IsCompound (snd pair) \<longrightarrow>
           (\<exists>gids. component_gids fuel dev (GlyphAdvOffset (snd pair)) 0 = Some gids
              \<and> map component_GlyphIndex (CompoundComponents (snd pair))
                  = map (\<lambda>c. of_nat (position (first_occurrences (m_orderedGIDs s')) c))
                      gids))
         (m_glyphDatas s')
     \<and> (distinct gidList \<and> 0 \<notin> set gidList
           \<longrightarrow> first_occurrences (m_orderedGIDs s') = m_orderedGIDs s')"
    if init: "Init (new_PdfFontTrueTypeSubset dev) = Inr s"
      and run: "LoadGlyphs fuel ctx s gidList = Some (Inr s')"
  proof -
    note fresh = Init_fresh [OF init]
    note facts = LoadGlyphs_facts [OF fresh(2,3) run]
    note counts = LoadGlyphs_counts [OF fresh(2,3) run]
    note indices = LoadGlyphs_indices [OF fresh(2,3) run]
    have "first_occurrences (m_orderedGIDs s') = m_orderedGIDs s'"
      if "distinct gidList" "0 \<notin> set gidList"
    proof -
      from that have "distinct (m_orderedGIDs s')"
        by (subst facts(1)) auto
      then show ?thesis by (rule first_occurrences_distinct)
    qed
    with facts(1,2,3) counts(3) indices fresh(1) show ?thesis
      by (simp add: glyph_keys_def)
  qed
  have example:
    "m_orderedGIDs subset_S5_loaded = [0, 10, 3, 5, 7]"
    "map (\<lambda>pair. (fst pair, map component_GlyphIndex (CompoundComponents (snd pair))))
         (m_glyphDatas subset_S5_loaded)
       = [(0, []), (3, []), (5, []), (7, [2]), (10, [3, 4])]"
    by (simp_all add: subset_S5_loaded_def)
  from general example LoadGlyphs_S5 show ?thesis by blast
qed

theorem C3_LoadGlyphs_order_witness:
  "Init (new_PdfFontTrueTypeSubset font_S5) = Inr subset_S5
   \<and> LoadGlyphs 20 ctx_S5 subset_S5 [10] = Some (Inr subset_S5_loaded)
   \<and> components_in_map_order 20 font_S5 (m_glyphDatas subset_S5_loaded) = [3, 5, 7]
   \<and> m_orderedGIDs subset_S5_loaded
       = 0 # [10] @ first_occurrences (filter (\<lambda>g. g \<notin> set [0, 10]) [3, 5, 7])
   \<and> first_occurrences (filter (\<lambda>g. g \<notin> set [0, 10 :: 32 word]) [3, 5, 7]) = [3, 5, 7]
   \<and> glyph_closure font_S5 False ctx_S5 (set [0, 10]) = set [0, 10, 3, 5, 7]
   \<and> first_occurrences (m_orderedGIDs subset_S5_loaded) = m_orderedGIDs subset_S5_loaded
   \<and> map (position [0, 10, 3, 5, 7 :: 32 word]) [10, 3, 5, 7] = [1, 2, 3, 4]"
proof -
  have new_ids: "map (position [0, 10, 3, 5, 7 :: 32 word]) [10, 3, 5, 7] = [1, 2, 3, 4]"
    by (simp add: position_def)
  have long: "m_isLongLoca subset_S5 = False"
    by (simp add: subset_S5_def)
  have list: "m_orderedGIDs subset_S5_loaded = [0, 10, 3, 5, 7]"
    by (simp add: subset_S5_loaded_def)
  have first: "first_occurrences (filter (\<lambda>g. g \<notin> set [0, 10 :: 32 word]) [3, 5, 7]) = [3, 5, 7]"
    by (simp add: first_occurrences_def)
  from C3_LoadGlyphs_order [of font_S5 subset_S5 20 ctx_S5 "[10]" subset_S5_loaded]
    Init_S5 LoadGlyphs_S5
  have "m_orderedGIDs subset_S5_loaded
          = 0 # [10] @ first_occurrences
              (filter (\<lambda>g. g \<notin> set (0 # [10]))
                 (components_in_map_order 20 font_S5 (m_glyphDatas subset_S5_loaded)))"
    and "set (m_orderedGIDs subset_S5_loaded)
          = glyph_closure font_S5 (m_isLongLoca subset_S5) ctx_S5 (set (0 # [10]))"
    and "distinct [10 :: 32 word] \<and> (0 :: 32 word) \<notin> set [10]
          \<longrightarrow> first_occurrences (m_orderedGIDs subset_S5_loaded)
                = m_orderedGIDs subset_S5_loaded"
    by blast+
  with long list first new_ids components_in_map_order_S5 Init_S5 LoadGlyphs_S5 show ?thesis
    by simp
qed

section \<open>Glyph ids given more than once\<close>

text \<open>
  C10: when \<open>LoadGlyphs\<close> succeeds on a newly initialised subsetter, the loaded
  glyphs, whose number \<open>WriteTables\<close> writes as \<open>numGlyphs\<close>, are as many as the
  closure of glyph 0 and the glyph list under the components; the ordered glyph list
  is longer by one entry for each occurrence in the glyph list of glyph 0 or of a glyph
  id that occurred before, so its length is the size of the closure exactly when the
  glyph list has no repeated glyph id and does not hold glyph 0.  The \<open>hmtx\<close>, \<open>loca\<close>
  and \<open>glyf\<close> tables are written with one record for each entry of the ordered list,
  so a glyph id that occurs again has its record written again.
\<close>

theorem C10_repeated_glyph_ids:
  "Init (new_PdfFontTrueTypeSubset dev) = Inr s \<and> LoadGlyphs fuel ctx s gidList = Some (Inr s')
   \<longrightarrow> length (m_glyphDatas s')
         = card (glyph_closure dev (m_isLongLoca s) ctx (set (0 # gidList)))
       \<and> numGlyphs_written s'
           = of_nat (card (glyph_closure dev (m_isLongLoca s) ctx (set (0 # gidList))))
       \<and> length (m_orderedGIDs s')
           = card (glyph_closure dev (m_isLongLoca s) ctx (set (0 # gidList)))
             + repeated_occurrences [0] gidList
       \<and> (repeated_occurrences [0] gidList = 0 \<longleftrightarrow> distinct gidList \<and> 0 \<notin> set gidList)
       \<and> (length (m_orderedGIDs s')
            = card (glyph_closure dev (m_isLongLoca s) ctx (set (0 # gidList)))
          \<longleftrightarrow> distinct gidList \<and> 0 \<notin> set gidList)
       \<and> (\<forall>bytes. WriteHmtxTable s' = Inr bytes
             \<longrightarrow> length bytes = 4 * length (m_orderedGIDs s')
                 \<and> (\<exists>tableOffset. GetTableOffset (m_tables s') TTAG_hmtx = Inr tableOffset
                      \<and> bytes = concat (map (\<lambda>gid. take 4
                                    (drop (unat (tableOffset + gid * 4)) (m_device s')))
                                  (m_orderedGIDs s'))))
       \<and> length (fst (WriteLocaTable s'))
           = (if m_isLongLoca s' then 4 else 2) * (length (m_orderedGIDs s') + 1)
       \<and> (\<forall>bytes s''. WriteGlyphTable s' = Inr (bytes, s'')
             \<longrightarrow> s'' = s'
                 \<and> length bytes
                     = sum_list (map (\<lambda>gid. unat (GlyphLength
                                   (the (std_map_find (m_glyphDatas s') gid))))
                         (m_orderedGIDs s')))"
proof (intro impI, elim conjE)
  assume init: "Init (new_PdfFontTrueTypeSubset dev) = Inr s"
    and run: "LoadGlyphs fuel ctx s gidList = Some (Inr s')"
  let ?closure = "glyph_closure dev (m_isLongLoca s) ctx (set (0 # gidList))"
  note fresh = Init_fresh [OF init]
  note facts = LoadGlyphs_facts [OF fresh(2,3) run]
  note counts = LoadGlyphs_counts [OF fresh(2,3) run]
  have n: "length (m_glyphDatas s') = card ?closure"
    using counts(1) fresh(1) by simp
  have m: "length (m_orderedGIDs s') = card ?closure + repeated_occurrences [0] gidList"
    using counts(2) fresh(1) by simp
  have zero: "repeated_occurrences [0] gidList = 0 \<longleftrightarrow> distinct gidList \<and> 0 \<notin> set gidList"
    using repeated_occurrences_0 [of "[0]" gidList] by auto
  have keys: "set (m_orderedGIDs s') \<subseteq> fst ` set (m_glyphDatas s')"
    using counts(3) facts(3) by (simp add: glyph_keys_def)
  have glyf: "s'' = s' \<and> length bytes
      = sum_list (map (\<lambda>gid. unat (GlyphLength (the (std_map_find (m_glyphDatas s') gid))))
          (m_orderedGIDs s'))"
    if "WriteGlyphTable s' = Inr (bytes, s'')" for bytes s''
  proof -
    from that obtain glyphDatas where
      loop: "WriteGlyphTable_loop (m_device s') (m_glyphDatas s') (m_orderedGIDs s')
               = Inr (bytes, glyphDatas)"
      and s'': "s'' = s'\<lparr>m_glyphDatas := glyphDatas\<rparr>"
      by (auto simp: WriteGlyphTable_def split: sum.splits)
    from WriteGlyphTable_loop_length [OF keys loop] s'' show ?thesis by simp
  qed
  from n m zero glyf WriteHmtxTable_length [of s'] WriteHmtxTable_records [of s']
    WriteLocaTable_length [of s']
  show "length (m_glyphDatas s') = card ?closure
       \<and> numGlyphs_written s' = of_nat (card ?closure)
       \<and> length (m_orderedGIDs s') = card ?closure + repeated_occurrences [0] gidList
       \<and> (repeated_occurrences [0] gidList = 0 \<longleftrightarrow> distinct gidList \<and> 0 \<notin> set gidList)
       \<and> (length (m_orderedGIDs s') = card ?closure \<longleftrightarrow> distinct gidList \<and> 0 \<notin> set gidList)
       \<and> (\<forall>bytes. WriteHmtxTable s' = Inr bytes
             \<longrightarrow> length bytes = 4 * length (m_orderedGIDs s')
                 \<and> (\<exists>tableOffset. GetTableOffset (m_tables s') TTAG_hmtx = Inr tableOffset
                      \<and> bytes = concat (map (\<lambda>gid. take 4
                                    (drop (unat (tableOffset + gid * 4)) (m_device s')))
                                  (m_orderedGIDs s'))))
       \<and> length (fst (WriteLocaTable s'))
           = (if m_isLongLoca s' then 4 else 2) * (length (m_orderedGIDs s') + 1)
       \<and> (\<forall>bytes s''. WriteGlyphTable s' = Inr (bytes, s'')
             \<longrightarrow> s'' = s'
                 \<and> length bytes
                     = sum_list (map (\<lambda>gid. unat (GlyphLength
                                   (the (std_map_find (m_glyphDatas s') gid))))
                         (m_orderedGIDs s')))"
    by (simp add: numGlyphs_written_def)
qed

theorem C10_repeated_glyph_ids_witness:
  "Init (new_PdfFontTrueTypeSubset font_S5) = Inr subset_S5
   \<and> LoadGlyphs 20 ctx_S5 subset_S5 [5, 0, 5] = Some (Inr subset_S5_repeated)
   \<and> card (glyph_closure font_S5 False ctx_S5 (set [0, 5, 0, 5])) = 2
   \<and> repeated_occurrences [0] [5, 0, 5] = 2
   \<and> m_orderedGIDs subset_S5_repeated = [0, 5, 0, 5]
   \<and> numGlyphs_written subset_S5_repeated = 2
   \<and> WriteHmtxTable subset_S5_repeated
       = Inr [1, 244, 0, 0, 1, 249, 0, 5, 1, 244, 0, 0, 1, 249, 0, 5]
   \<and> WriteLocaTable subset_S5_repeated = ([0, 0, 0, 9, 0, 18, 0, 27, 0, 36], subset_S5_repeated)
   \<and> WriteGlyphTable subset_S5_repeated =
       Inr ([0, 1, 0, 0, 0, 0, 0, 0, 0, 0, 0, 0, 0, 0, 1, 0, 2, 0,
             0, 1, 0, 0, 0, 0, 0, 0, 0, 0, 0, 0, 0, 0, 1, 5, 2, 0,
             0, 1, 0, 0, 0, 0, 0, 0, 0, 0, 0, 0, 0, 0, 1, 0, 2, 0,
             0, 1, 0, 0, 0, 0, 0, 0, 0, 0, 0, 0, 0, 0, 1, 5, 2, 0], subset_S5_repeated)"
proof -
  have long: "m_isLongLoca subset_S5 = False"
    by (simp add: subset_S5_def)
  have state:
    "length (m_glyphDatas subset_S5_repeated) = 2"
    "m_orderedGIDs subset_S5_repeated = [0, 5, 0, 5]"
    by (simp_all add: subset_S5_repeated_def)
  from C10_repeated_glyph_ids [of font_S5 subset_S5 20 ctx_S5 "[5, 0, 5]" subset_S5_repeated]
    Init_S5 LoadGlyphs_S5_repeated
  have "length (m_glyphDatas subset_S5_repeated)
          = card (glyph_closure font_S5 (m_isLongLoca subset_S5) ctx_S5 (set (0 # [5, 0, 5])))"
    by blast
  with long state Init_S5 LoadGlyphs_S5_repeated tables_S5_repeated show ?thesis
    by simp
qed


end
